theory Spec2Isabelle
  imports Main
begin

section \<open>Slices as LIMIT and OFFSET: \<open>_make_slice\<close>\<close>

text \<open>
  A limit or offset argument of \<open>_make_slice\<close> is \<open>None\<close>, a plain Python integer or
  a SQL expression. The SQL expressions the function can tell apart are the bound
  parameter that the coercion of an integer produces (it has the attribute
  \<open>_limit_offset_value\<close>), any other expression (named by its object identity), and the
  expression that Python's overloaded \<open>+\<close> builds from an expression and an integer.
\<close>

datatype clause =
    PyInt int
  | OffsetLimitParam int
  | SqlExpression nat
  | SqlAdd clause int

text \<open>
  Modelled from the spec: \<open>coercions.expect(roles.LimitOffsetRole, element)\<close> is not part
  of the source file. The docstring of \<open>_offset_or_limit_clause\<close> says what it does:
  an integer is converted to an expression, an expression is passed through.
\<close>

fun offset_or_limit_clause :: "clause \<Rightarrow> clause" where
  "offset_or_limit_clause (PyInt n) = OffsetLimitParam n"
| "offset_or_limit_clause c = c"

text \<open>
  \<open>_offset_or_limit_clause_asint_if_possible\<close>: \<open>None\<close> stays \<open>None\<close>, a clause with
  \<open>_limit_offset_value\<close> gives that value as an integer, anything else is returned as it is.
\<close>

fun offset_or_limit_clause_asint_if_possible :: "clause option \<Rightarrow> clause option" where
  "offset_or_limit_clause_asint_if_possible None = None"
| "offset_or_limit_clause_asint_if_possible (Some (OffsetLimitParam v)) = Some (PyInt v)"
| "offset_or_limit_clause_asint_if_possible (Some c) = Some c"

text \<open>
  \<open>offset_clause + start\<close>: integer addition on a plain integer, a SQL-level addition on
  an expression. \<open>offset_clause == 0\<close> is true of the integer zero only; on an expression
  the comparison builds another expression, which is not true.
\<close>

fun py_add :: "clause \<Rightarrow> int \<Rightarrow> clause" where
  "py_add (PyInt a) n = PyInt (a + n)"
| "py_add c n = SqlAdd c n"

fun py_eq_zero :: "clause \<Rightarrow> bool" where
  "py_eq_zero (PyInt a) = (a = 0)"
| "py_eq_zero c = False"

definition make_slice ::
  "clause option \<Rightarrow> clause option \<Rightarrow> int option \<Rightarrow> int option
    \<Rightarrow> clause option \<times> clause option" where
  "make_slice limit_clause offset_clause start stop =
    (case (start, stop) of
      (Some st, Some sp) \<Rightarrow>
        (let oc0 = offset_or_limit_clause_asint_if_possible offset_clause;
             oc1 = (case oc0 of None \<Rightarrow> PyInt 0 | Some c \<Rightarrow> c);
             oc2 = (if st \<noteq> 0 then py_add oc1 st else oc1);
             oc3 = (if py_eq_zero oc2 then None else Some (offset_or_limit_clause oc2));
             lc = offset_or_limit_clause (PyInt (sp - st))
         in (Some lc, oc3))
    | (None, Some sp) \<Rightarrow> (Some (offset_or_limit_clause (PyInt sp)), offset_clause)
    | (Some st, None) \<Rightarrow>
        (let oc0 = offset_or_limit_clause_asint_if_possible offset_clause;
             oc1 = (case oc0 of None \<Rightarrow> PyInt 0 | Some c \<Rightarrow> c);
             oc2 = (if st \<noteq> 0 then py_add oc1 st else oc1);
             oc3 = (if py_eq_zero oc2 then None else Some (offset_or_limit_clause oc2))
         in (limit_clause, oc3))
    | (None, None) \<Rightarrow> (limit_clause, offset_clause))"


section \<open>The expression tree\<close>

text \<open>
  Every node of an expression tree is an object; \<open>oid\<close> is its identity. Two values of
  \<open>element\<close> are the same object exactly when they are equal, so the identity-keyed sets
  and dictionaries of the source (\<open>column_set\<close>, \<open>OrderedSet\<close>, \<open>column_dict\<close>) become
  sets, duplicate-free lists and maps of elements. The node kinds are those the
  functions below tell apart.
\<close>

type_synonym oid = nat

datatype operator =
    operators_eq | operators_ne | operators_lt | operators_gt
  | operators_add | operators_and
  | desc_op | asc_op | nulls_first_op | nulls_last_op
  | distinct_op | operators_neg

datatype element =
    Column oid
  | ColumnClause oid
  | Null oid
  | True_constant oid
  | False_constant oid
  | TextClause oid
  | BinaryExpression oid operator element element
  | UnaryExpression oid "operator option" element
  | Label oid element
  | Grouping oid element
  | ScalarSelect oid "element list"
  | LabelReference oid element
  | TextualLabelReference oid
  | ClauseList oid "element list"
  | TableClause oid
  | Alias oid element
  | Join oid element element element
  | FunctionElement oid "element list"

fun oid_of :: "element \<Rightarrow> oid" where
  "oid_of (Column i) = i"
| "oid_of (ColumnClause i) = i"
| "oid_of (Null i) = i"
| "oid_of (True_constant i) = i"
| "oid_of (False_constant i) = i"
| "oid_of (TextClause i) = i"
| "oid_of (BinaryExpression i opr l r) = i"
| "oid_of (UnaryExpression i m e) = i"
| "oid_of (Label i e) = i"
| "oid_of (Grouping i e) = i"
| "oid_of (ScalarSelect i es) = i"
| "oid_of (LabelReference i e) = i"
| "oid_of (TextualLabelReference i) = i"
| "oid_of (ClauseList i es) = i"
| "oid_of (TableClause i) = i"
| "oid_of (Alias i e) = i"
| "oid_of (Join i l r on) = i"
| "oid_of (FunctionElement i es) = i"

text \<open>
  Modelled from the spec: \<open>get_children\<close> belongs to the node classes, which are not part
  of the source file. "Every node exposes an ordered sequence of child nodes".
\<close>

fun get_children :: "element \<Rightarrow> element list" where
  "get_children (BinaryExpression i opr l r) = [l, r]"
| "get_children (UnaryExpression i m e) = [e]"
| "get_children (Label i e) = [e]"
| "get_children (Grouping i e) = [e]"
| "get_children (ScalarSelect i es) = es"
| "get_children (LabelReference i e) = [e]"
| "get_children (ClauseList i es) = es"
| "get_children (Alias i e) = [e]"
| "get_children (Join i l r on) = [l, r, on]"
| "get_children (FunctionElement i es) = es"
| "get_children e = []"

text \<open>The \<open>isinstance\<close> tests of the source, and the \<open>element\<close> attribute of a wrapper.\<close>

fun isinstance_ColumnElement :: "element \<Rightarrow> bool" where
  "isinstance_ColumnElement (TextClause i) = False"
| "isinstance_ColumnElement (ClauseList i es) = False"
| "isinstance_ColumnElement (TableClause i) = False"
| "isinstance_ColumnElement (Alias i e) = False"
| "isinstance_ColumnElement (Join i l r on) = False"
| "isinstance_ColumnElement e = True"

fun isinstance_ColumnClause :: "element \<Rightarrow> bool" where
  "isinstance_ColumnClause (Column i) = True"
| "isinstance_ColumnClause (ColumnClause i) = True"
| "isinstance_ColumnClause e = False"

fun isinstance_Column :: "element \<Rightarrow> bool" where
  "isinstance_Column (Column i) = True"
| "isinstance_Column e = False"

fun isinstance_Label :: "element \<Rightarrow> bool" where
  "isinstance_Label (Label i e) = True"
| "isinstance_Label e = False"

fun isinstance_Grouping :: "element \<Rightarrow> bool" where
  "isinstance_Grouping (Grouping i e) = True"
| "isinstance_Grouping e = False"

fun isinstance_ScalarSelect :: "element \<Rightarrow> bool" where
  "isinstance_ScalarSelect (ScalarSelect i es) = True"
| "isinstance_ScalarSelect e = False"

fun isinstance_label_reference :: "element \<Rightarrow> bool" where
  "isinstance_label_reference (LabelReference i e) = True"
| "isinstance_label_reference e = False"

fun isinstance_textual_label_reference :: "element \<Rightarrow> bool" where
  "isinstance_textual_label_reference (TextualLabelReference i) = True"
| "isinstance_textual_label_reference e = False"

fun is_text_clause :: "element \<Rightarrow> bool" where
  "is_text_clause (TextClause i) = True"
| "is_text_clause e = False"

fun element_of :: "element \<Rightarrow> element" where
  "element_of (Label i e) = e"
| "element_of (Grouping i e) = e"
| "element_of (LabelReference i e) = e"
| "element_of (UnaryExpression i m e) = e"
| "element_of (Alias i e) = e"
| "element_of e = e"

text \<open>
  Modelled from the spec: \<open>operators.is_ordering_modifier\<close> is not part of the source
  file; the ordering modifiers are ASC, DESC, NULLS FIRST and NULLS LAST.
\<close>

fun is_ordering_modifier :: "operator option \<Rightarrow> bool" where
  "is_ordering_modifier (Some m) = (m \<in> {asc_op, desc_op, nulls_first_op, nulls_last_op})"
| "is_ordering_modifier None = False"

text \<open>\<open>isinstance(t, UnaryExpression) and operators.is_ordering_modifier(t.modifier)\<close>\<close>

fun is_ordering_unary :: "element \<Rightarrow> bool" where
  "is_ordering_unary (UnaryExpression i m e) = is_ordering_modifier m"
| "is_ordering_unary e = False"

text \<open>
  Modelled from the spec: \<open>visitors.traverse\<close> and \<open>visitors.iterate\<close> are not part of the
  source file. The read-only visit reaches every node once, "in a depth-first,
  pre-order-then-recurse order".
\<close>

fun iterate :: "element \<Rightarrow> element list" where
  "iterate (BinaryExpression i opr l r) = BinaryExpression i opr l r # iterate l @ iterate r"
| "iterate (UnaryExpression i m e) = UnaryExpression i m e # iterate e"
| "iterate (Label i e) = Label i e # iterate e"
| "iterate (Grouping i e) = Grouping i e # iterate e"
| "iterate (ScalarSelect i es) = ScalarSelect i es # concat (map iterate es)"
| "iterate (LabelReference i e) = LabelReference i e # iterate e"
| "iterate (ClauseList i es) = ClauseList i es # concat (map iterate es)"
| "iterate (Alias i e) = Alias i e # iterate e"
| "iterate (Join i l r on) = Join i l r on # iterate l @ iterate r @ iterate on"
| "iterate (FunctionElement i es) = FunctionElement i es # concat (map iterate es)"
| "iterate e = [e]"

text \<open>
  \<open>util.OrderedSet(xs)\<close> and a loop that adds to a set what it has not seen: the first
  occurrence of every element, in order.
\<close>

fun keep_first :: "'a set \<Rightarrow> 'a list \<Rightarrow> 'a list" where
  "keep_first seen [] = []"
| "keep_first seen (x # xs) =
     (if x \<in> seen then keep_first seen xs else x # keep_first (insert x seen) xs)"

section \<open>\<open>unwrap_order_by\<close>\<close>

text \<open>The measure of the work stack: popping a node and pushing its children lowers it.\<close>

definition weight :: "element list \<Rightarrow> nat" where
  "weight stack = sum_list (map (\<lambda>e. 3 * size e + 1) stack)"

lemma weight_simps:
  "weight [] = 0" "weight (t # stack) = 3 * size t + 1 + weight stack"
  "weight (xs @ ys) = weight xs + weight ys"
  by (simp_all add: weight_def)

lemma weight_size_list: "weight es \<le> 3 * size_list size es"
  by (induction es) (auto simp: weight_def)

lemma weight_children: "weight (get_children t) \<le> 3 * size t"
proof (cases t)
  case (ScalarSelect i es)
  then show ?thesis using weight_size_list [of es] by simp
next
  case (ClauseList i es)
  then show ?thesis using weight_size_list [of es] by simp
next
  case (FunctionElement i es)
  then show ?thesis using weight_size_list [of es] by simp
qed (auto simp: weight_def)

lemma size_element_of_Label: "isinstance_Label t \<Longrightarrow> size (element_of t) < size t"
  by (cases t) auto

lemma size_element_of_Grouping: "isinstance_Grouping t \<Longrightarrow> size (element_of t) < size t"
  by (cases t) auto

lemma size_element_of_label_reference:
  "isinstance_label_reference t \<Longrightarrow> size (element_of t) < size t"
  by (cases t) auto

text \<open>
  The \<open>while stack\<close> loop: \<open>stack\<close> is the deque (\<open>popleft\<close> takes its head, \<open>append\<close>
  adds at its end), \<open>cols\<close> the set of columns seen, \<open>result\<close> the list built.
\<close>

function unwrap_order_by_loop ::
  "element list \<Rightarrow> element set \<Rightarrow> element list \<Rightarrow> element list" where
  "unwrap_order_by_loop [] cols result = result"
| "unwrap_order_by_loop (t # stack) cols result =
    (if isinstance_ColumnElement t \<and> \<not> is_ordering_unary t then
       if isinstance_Label t \<and> \<not> isinstance_ScalarSelect (element_of t) then
         unwrap_order_by_loop
           (stack @ [if isinstance_Grouping (element_of t) then element_of (element_of t)
                     else element_of t]) cols result
       else if isinstance_label_reference t then
         unwrap_order_by_loop (stack @ [element_of t]) cols result
       else if isinstance_textual_label_reference t then
         unwrap_order_by_loop stack cols result
       else if t \<notin> cols then
         unwrap_order_by_loop stack (insert t cols) (result @ [t])
       else unwrap_order_by_loop stack cols result
     else unwrap_order_by_loop (stack @ get_children t) cols result)"
  by pat_completeness auto
termination
proof (relation "measure (\<lambda>(stack, cols, result). weight stack)")
  show "wf (measure (\<lambda>(stack, cols, result). weight stack))" by simp
next
  fix t :: element and stack :: "element list" and cols :: "element set"
    and result :: "element list"
  assume "isinstance_Label t \<and> \<not> isinstance_ScalarSelect (element_of t)"
  then have a: "size (element_of t) < size t" by (simp add: size_element_of_Label)
  have b: "isinstance_Grouping (element_of t)
      \<Longrightarrow> size (element_of (element_of t)) < size (element_of t)"
    by (simp add: size_element_of_Grouping)
  from a b show "((stack @ [if isinstance_Grouping (element_of t)
                            then element_of (element_of t) else element_of t], cols, result),
                  t # stack, cols, result)
        \<in> measure (\<lambda>(stack, cols, result). weight stack)"
    by (auto simp: weight_simps)
next
  fix t :: element and stack :: "element list" and cols :: "element set"
    and result :: "element list"
  assume "isinstance_label_reference t"
  then have "size (element_of t) < size t" by (simp add: size_element_of_label_reference)
  then show "((stack @ [element_of t], cols, result), t # stack, cols, result)
        \<in> measure (\<lambda>(stack, cols, result). weight stack)"
    by (auto simp: weight_simps)
next
  fix t :: element and stack :: "element list" and cols :: "element set"
    and result :: "element list"
  show "((stack @ get_children t, cols, result), t # stack, cols, result)
        \<in> measure (\<lambda>(stack, cols, result). weight stack)"
    using weight_children [of t] by (auto simp: weight_simps)
qed (auto simp: weight_simps)

definition unwrap_order_by :: "element \<Rightarrow> element list" where
  "unwrap_order_by clause = unwrap_order_by_loop [clause] {} []"

text \<open>
  The sequence of column expressions the loop reaches, every encounter kept: the same
  loop without the set of columns seen. \<open>unwrap_order_by\<close> is compared with it below.
\<close>

function unwrap_order_by_encounters :: "element list \<Rightarrow> element list" where
  "unwrap_order_by_encounters [] = []"
| "unwrap_order_by_encounters (t # stack) =
    (if isinstance_ColumnElement t \<and> \<not> is_ordering_unary t then
       if isinstance_Label t \<and> \<not> isinstance_ScalarSelect (element_of t) then
         unwrap_order_by_encounters
           (stack @ [if isinstance_Grouping (element_of t) then element_of (element_of t)
                     else element_of t])
       else if isinstance_label_reference t then
         unwrap_order_by_encounters (stack @ [element_of t])
       else if isinstance_textual_label_reference t then
         unwrap_order_by_encounters stack
       else t # unwrap_order_by_encounters stack
     else unwrap_order_by_encounters (stack @ get_children t))"
  by pat_completeness auto
termination
proof (relation "measure weight")
  show "wf (measure weight)" by simp
next
  fix t :: element and stack :: "element list"
  assume "isinstance_Label t \<and> \<not> isinstance_ScalarSelect (element_of t)"
  then have a: "size (element_of t) < size t" by (simp add: size_element_of_Label)
  have b: "isinstance_Grouping (element_of t)
      \<Longrightarrow> size (element_of (element_of t)) < size (element_of t)"
    by (simp add: size_element_of_Grouping)
  from a b show "(stack @ [if isinstance_Grouping (element_of t)
                           then element_of (element_of t) else element_of t], t # stack)
        \<in> measure weight"
    by (auto simp: weight_simps)
next
  fix t :: element and stack :: "element list"
  assume "isinstance_label_reference t"
  then have "size (element_of t) < size t" by (simp add: size_element_of_label_reference)
  then show "(stack @ [element_of t], t # stack) \<in> measure weight"
    by (auto simp: weight_simps)
next
  fix t :: element and stack :: "element list"
  show "(stack @ get_children t, t # stack) \<in> measure weight"
    using weight_children [of t] by (auto simp: weight_simps)
qed (auto simp: weight_simps)

text \<open>
  What the loop appends to its result: a column element that is not an ordering
  modifier, not a label reference of either kind, and a label only around a scalar select.
\<close>

definition underlying_column :: "element \<Rightarrow> bool" where
  "underlying_column t =
     (isinstance_ColumnElement t \<and> \<not> is_ordering_unary t
      \<and> \<not> isinstance_label_reference t \<and> \<not> isinstance_textual_label_reference t
      \<and> (isinstance_Label t \<longrightarrow> isinstance_ScalarSelect (element_of t)))"

section \<open>\<open>find_left_clause_to_join_from\<close>\<close>

text \<open>
  What the function reads of a FROM clause \<open>f\<close>: its identity, its column collection
  \<open>f.c\<close>, and \<open>_expand_cloned(f._hide_froms)\<close>, the identities of the FROM clauses it
  hides.
\<close>

record from_clause =
  from_oid :: oid
  from_c :: "element list"
  from_hide_froms :: "oid list"

text \<open>
  Modelled from the spec: \<open>_find_columns\<close> is not part of the source file; it collects
  the column objects of an expression.
\<close>

definition find_columns :: "element \<Rightarrow> element set" where
  "find_columns clause = set (filter isinstance_ColumnClause (iterate clause))"

text \<open>
  The loop over \<open>enumerate(clauses)\<close>. \<open>selectables\<close> is \<open>set(_from_objects(join_to))\<close>
  and \<open>can_join\<close> is \<open>Join._can_join\<close>, both taken as given. The inner loop over
  \<open>selectables.difference([f])\<close> appends \<open>i\<close> at most once (\<open>break\<close>), so \<open>i\<close> is kept
  when some selectable other than \<open>f\<close> passes the test.
\<close>

definition join_from_candidates ::
  "(from_clause \<Rightarrow> from_clause \<Rightarrow> bool) \<Rightarrow> from_clause list \<Rightarrow> from_clause list
    \<Rightarrow> element option \<Rightarrow> nat list" where
  "join_from_candidates can_join clauses selectables onclause =
    (let resolve_ambiguity = (length clauses > 1 \<and> onclause \<noteq> None);
         cols_in_onclause = (case onclause of Some e \<Rightarrow> find_columns e | None \<Rightarrow> {})
     in filter
          (\<lambda>i. list_ex
                 (\<lambda>s. if resolve_ambiguity
                      then cols_in_onclause \<subseteq> set (from_c (clauses ! i)) \<union> set (from_c s)
                      else onclause \<noteq> None \<or> can_join (clauses ! i) s)
                 (filter (\<lambda>s. from_oid s \<noteq> from_oid (clauses ! i)) selectables))
          [0..<length clauses])"

text \<open>The "hide froms" pass, run when more than one index was found.\<close>

definition hide_froms_pass :: "from_clause list \<Rightarrow> nat list \<Rightarrow> nat list" where
  "hide_froms_pass clauses idx =
    (if length idx > 1 then
       (let toremove = set (concat (map from_hide_froms clauses))
        in filter (\<lambda>i. from_oid (clauses ! i) \<notin> toremove) idx)
     else idx)"

definition find_left_clause_to_join_from ::
  "(from_clause \<Rightarrow> from_clause \<Rightarrow> bool) \<Rightarrow> from_clause list \<Rightarrow> from_clause list
    \<Rightarrow> element option \<Rightarrow> nat list" where
  "find_left_clause_to_join_from can_join clauses selectables onclause =
    (let idx = hide_froms_pass clauses
                 (join_from_candidates can_join clauses selectables onclause)
     in if idx = [] \<and> onclause \<noteq> None then [0..<length clauses] else idx)"

section \<open>\<open>reduce_columns\<close>\<close>

datatype error = ArgumentError | NoReferencedColumnError | NoReferencedTableError

text \<open>
  \<open>fk.column\<close> of a foreign key: the referenced column, or one of the two exceptions
  that \<open>reduce_columns\<close> catches.
\<close>

datatype fk_column = FkColumn oid | NoReferencedColumn | NoReferencedTable

text \<open>
  The attributes of an object that are not part of the tree: the proxy set of a column
  (the identities of the columns it stands for, in the order the set iterates), the
  foreign keys of a column, the name, and the \<open>adapt_column\<close> annotation.
\<close>

record store =
  proxy_set :: "oid \<Rightarrow> oid list"
  foreign_keys :: "oid \<Rightarrow> fk_column list"
  name :: "oid \<Rightarrow> string"
  annotations_adapt_column :: "oid \<Rightarrow> element option"

text \<open>
  Modelled from the spec: \<open>shares_lineage\<close> is a method of the column class, not part of
  the source file. Two columns share lineage when their proxy sets meet.
\<close>

definition shares_lineage :: "store \<Rightarrow> oid \<Rightarrow> oid \<Rightarrow> bool" where
  "shares_lineage S a b = (set (proxy_set S a) \<inter> set (proxy_set S b) \<noteq> {})"

text \<open>
  The innermost loop, \<open>for c in cset_no_text\<close>, for one column \<open>col\<close> and one foreign key
  \<open>fk\<close>: \<open>Inr True\<close> when it reaches \<open>omit.add(col)\<close>, \<open>Inr False\<close> when it ends without,
  \<open>Inl\<close> the exception that \<open>fk.column\<close> raises and the loop re-raises.
\<close>

fun fk_scan_columns ::
  "store \<Rightarrow> bool \<Rightarrow> bool \<Rightarrow> element \<Rightarrow> fk_column \<Rightarrow> element list \<Rightarrow> error + bool" where
  "fk_scan_columns S ignore_nonexistent_tables only_synonyms col fk [] = Inr False"
| "fk_scan_columns S ignore_nonexistent_tables only_synonyms col fk (c # cs) =
     (if c = col then fk_scan_columns S ignore_nonexistent_tables only_synonyms col fk cs
      else case fk of
        NoReferencedColumn \<Rightarrow>
          if ignore_nonexistent_tables
          then fk_scan_columns S ignore_nonexistent_tables only_synonyms col fk cs
          else Inl NoReferencedColumnError
      | NoReferencedTable \<Rightarrow>
          if ignore_nonexistent_tables
          then fk_scan_columns S ignore_nonexistent_tables only_synonyms col fk cs
          else Inl NoReferencedTableError
      | FkColumn fk_col \<Rightarrow>
          if shares_lineage S fk_col (oid_of c)
             \<and> (\<not> only_synonyms \<or> name S (oid_of c) = name S (oid_of col))
          then Inr True
          else fk_scan_columns S ignore_nonexistent_tables only_synonyms col fk cs)"

text \<open>The loop over the foreign keys of one column; \<open>omit\<close> is the set being built.\<close>

fun fk_scan_keys ::
  "store \<Rightarrow> bool \<Rightarrow> bool \<Rightarrow> element list \<Rightarrow> element \<Rightarrow> fk_column list \<Rightarrow> element set
    \<Rightarrow> error + element set" where
  "fk_scan_keys S ign syn cset_no_text col [] omit = Inr omit"
| "fk_scan_keys S ign syn cset_no_text col (fk # fks) omit =
     (case fk_scan_columns S ign syn col fk cset_no_text of
        Inl e \<Rightarrow> Inl e
      | Inr found \<Rightarrow>
          fk_scan_keys S ign syn cset_no_text col fks (if found then insert col omit else omit))"

text \<open>\<open>chain(*[c.foreign_keys for c in col.proxy_set])\<close>\<close>

definition foreign_keys_of :: "store \<Rightarrow> element \<Rightarrow> fk_column list" where
  "foreign_keys_of S col = concat (map (foreign_keys S) (proxy_set S (oid_of col)))"

text \<open>The outer loop, \<open>for col in cset_no_text\<close>.\<close>

fun fk_scan ::
  "store \<Rightarrow> bool \<Rightarrow> bool \<Rightarrow> element list \<Rightarrow> element list \<Rightarrow> element set
    \<Rightarrow> error + element set" where
  "fk_scan S ign syn cset_no_text [] omit = Inr omit"
| "fk_scan S ign syn cset_no_text (col # cols) omit =
     (case fk_scan_keys S ign syn cset_no_text col (foreign_keys_of S col) omit of
        Inl e \<Rightarrow> Inl e
      | Inr omit' \<Rightarrow> fk_scan S ign syn cset_no_text cols omit')"

text \<open>
  The test of the loop \<open>for c in reversed(cset_no_text)\<close> inside \<open>visit_binary\<close>, and the
  columns \<open>cols\<close> that \<open>visit_binary\<close> computes from the columns still kept.
\<close>

definition binary_match :: "store \<Rightarrow> bool \<Rightarrow> element \<Rightarrow> element \<Rightarrow> element \<Rightarrow> bool" where
  "binary_match S only_synonyms left right c =
     (shares_lineage S (oid_of c) (oid_of right)
      \<and> (\<not> only_synonyms \<or> name S (oid_of c) = name S (oid_of left)))"

definition kept_proxies :: "store \<Rightarrow> element list \<Rightarrow> element set \<Rightarrow> oid set" where
  "kept_proxies S cset_no_text omit =
     set (concat (map (\<lambda>c. proxy_set S (oid_of c)) (filter (\<lambda>c. c \<notin> omit) cset_no_text)))"

fun visit_binary ::
  "store \<Rightarrow> bool \<Rightarrow> element list \<Rightarrow> element \<Rightarrow> element set \<Rightarrow> element set" where
  "visit_binary S only_synonyms cset_no_text (BinaryExpression i opr left right) omit =
     (if opr = operators_eq then
        (let cols = kept_proxies S cset_no_text omit
         in if oid_of left \<in> cols \<and> oid_of right \<in> cols then
              (case find (binary_match S only_synonyms left right) (rev cset_no_text) of
                 Some c \<Rightarrow> insert c omit
               | None \<Rightarrow> omit)
            else omit)
      else omit)"
| "visit_binary S only_synonyms cset_no_text e omit = omit"

text \<open>
  \<open>for clause in clauses: if clause is not None: visitors.traverse(clause, {}, {"binary":
  visit_binary})\<close>: every node of every clause, in order; \<open>visit_binary\<close> acts on the
  binary ones.
\<close>

definition clause_nodes :: "element option list \<Rightarrow> element list" where
  "clause_nodes clauses =
     concat (map (\<lambda>clause. case clause of None \<Rightarrow> [] | Some e \<Rightarrow> iterate e) clauses)"

definition traverse_clauses ::
  "store \<Rightarrow> bool \<Rightarrow> element list \<Rightarrow> element option list \<Rightarrow> element set \<Rightarrow> element set" where
  "traverse_clauses S only_synonyms cset_no_text clauses omit =
     fold (visit_binary S only_synonyms cset_no_text) (clause_nodes clauses) omit"

definition reduce_columns ::
  "store \<Rightarrow> bool \<Rightarrow> bool \<Rightarrow> element list \<Rightarrow> element option list \<Rightarrow> error + element list" where
  "reduce_columns S ignore_nonexistent_tables only_synonyms columns clauses =
     (let column_set = keep_first {} columns;
          cset_no_text = filter (\<lambda>c. \<not> is_text_clause c) column_set
      in case fk_scan S ignore_nonexistent_tables only_synonyms cset_no_text cset_no_text {} of
           Inl e \<Rightarrow> Inl e
         | Inr omit \<Rightarrow>
             Inr (filter (\<lambda>c. c \<notin> traverse_clauses S only_synonyms cset_no_text clauses omit)
                         column_set))"

text \<open>
  The same function with its collections as objects in a store, to say what a call
  does to the collection it is given. A collection is an address; \<open>contents\<close> gives the
  elements of each (a set as the list of its elements in insertion order) and
  \<open>allocated\<close> is the first address not in use. \<open>util.OrderedSet(...)\<close>,
  \<open>.difference(...)\<close> and \<open>util.column_set()\<close> make a new collection; \<open>omit.add(c)\<close>
  writes to the collection \<open>omit\<close>.
\<close>

type_synonym addr = nat

record collections =
  contents :: "addr \<Rightarrow> element list"
  allocated :: addr

definition new_collection :: "element list \<Rightarrow> collections \<Rightarrow> addr \<times> collections" where
  "new_collection xs H =
     (allocated H,
      H\<lparr>contents := (contents H)(allocated H := xs), allocated := Suc (allocated H)\<rparr>)"

definition set_add :: "addr \<Rightarrow> element \<Rightarrow> collections \<Rightarrow> collections" where
  "set_add a x H =
     H\<lparr>contents := (contents H)
          (a := if x \<in> set (contents H a) then contents H a else contents H a @ [x])\<rparr>"

text \<open>
  The loops over the foreign keys and over the columns, with \<open>cset_no_text\<close> and \<open>omit\<close>
  given by their addresses. A loop returns the exception it raised, if any, and the
  store as it left it.
\<close>

fun fk_scan_keys_heap ::
  "store \<Rightarrow> bool \<Rightarrow> bool \<Rightarrow> addr \<Rightarrow> addr \<Rightarrow> element \<Rightarrow> fk_column list \<Rightarrow> collections
    \<Rightarrow> error option \<times> collections" where
  "fk_scan_keys_heap S ign syn cset_no_text omit col [] H = (None, H)"
| "fk_scan_keys_heap S ign syn cset_no_text omit col (fk # fks) H =
     (case fk_scan_columns S ign syn col fk (contents H cset_no_text) of
        Inl e \<Rightarrow> (Some e, H)
      | Inr found \<Rightarrow>
          fk_scan_keys_heap S ign syn cset_no_text omit col fks
            (if found then set_add omit col H else H))"

fun fk_scan_heap ::
  "store \<Rightarrow> bool \<Rightarrow> bool \<Rightarrow> addr \<Rightarrow> addr \<Rightarrow> element list \<Rightarrow> collections
    \<Rightarrow> error option \<times> collections" where
  "fk_scan_heap S ign syn cset_no_text omit [] H = (None, H)"
| "fk_scan_heap S ign syn cset_no_text omit (col # cols) H =
     (case fk_scan_keys_heap S ign syn cset_no_text omit col (foreign_keys_of S col) H of
        (Some e, H') \<Rightarrow> (Some e, H')
      | (None, H') \<Rightarrow> fk_scan_heap S ign syn cset_no_text omit cols H')"

fun visit_binary_heap ::
  "store \<Rightarrow> bool \<Rightarrow> addr \<Rightarrow> addr \<Rightarrow> element \<Rightarrow> collections \<Rightarrow> collections" where
  "visit_binary_heap S only_synonyms cset_no_text omit (BinaryExpression i opr left right) H =
     (if opr = operators_eq then
        (let cols = kept_proxies S (contents H cset_no_text) (set (contents H omit))
         in if oid_of left \<in> cols \<and> oid_of right \<in> cols then
              (case find (binary_match S only_synonyms left right)
                         (rev (contents H cset_no_text)) of
                 Some c \<Rightarrow> set_add omit c H
               | None \<Rightarrow> H)
            else H)
      else H)"
| "visit_binary_heap S only_synonyms cset_no_text omit e H = H"

text \<open>
  The call: \<open>columns\<close> is the address of the collection passed in. The outcome is the
  exception or the elements of the new collection returned, together with the store
  after the call.
\<close>

definition reduce_columns_heap ::
  "store \<Rightarrow> bool \<Rightarrow> bool \<Rightarrow> addr \<Rightarrow> element option list \<Rightarrow> collections
    \<Rightarrow> (error + element list) \<times> collections" where
  "reduce_columns_heap S ignore_nonexistent_tables only_synonyms columns clauses H =
     (case new_collection (keep_first {} (contents H columns)) H of
        (column_set, H1) \<Rightarrow>
     (case new_collection (filter (\<lambda>c. \<not> is_text_clause c) (contents H1 column_set)) H1 of
        (cset_no_text, H2) \<Rightarrow>
     (case new_collection [] H2 of
        (omit, H3) \<Rightarrow>
     (case fk_scan_heap S ignore_nonexistent_tables only_synonyms cset_no_text omit
             (contents H3 cset_no_text) H3 of
        (Some e, H4) \<Rightarrow> (Inl e, H4)
      | (None, H4) \<Rightarrow>
          (let H5 = fold (visit_binary_heap S only_synonyms cset_no_text omit)
                         (clause_nodes clauses) H4
           in case new_collection
                     (filter (\<lambda>c. c \<notin> set (contents H5 omit)) (contents H5 column_set)) H5 of
                (result, H6) \<Rightarrow> (Inr (contents H6 result), H6))))))"

text \<open>The foreign keys of a store that resolve, the others dropped.\<close>

fun fk_resolves :: "fk_column \<Rightarrow> bool" where
  "fk_resolves (FkColumn i) = True"
| "fk_resolves fk = False"

definition resolved_only :: "store \<Rightarrow> store" where
  "resolved_only S = S\<lparr>foreign_keys := (\<lambda>i. filter fk_resolves (foreign_keys S i))\<rparr>"

section \<open>\<open>criterion_as_pairs\<close>\<close>

text \<open>
  The truth value of an optional set in a condition: \<open>None\<close> and the empty set are false.
\<close>

definition truthy :: "'a set option \<Rightarrow> bool" where
  "truthy s = (case s of None \<Rightarrow> False | Some A \<Rightarrow> A \<noteq> {})"

definition members :: "'a set option \<Rightarrow> 'a set" where
  "members s = (case s of None \<Rightarrow> {} | Some A \<Rightarrow> A)"

text \<open>
  \<open>visit_binary\<close> of \<open>criterion_as_pairs\<close>; \<open>pairs\<close> is the list it appends to.
  \<open>compare\<close> is the method \<open>a.compare(b)\<close> behind \<open>col_is\<close> and \<open>references\<close> is
  \<open>Column.references\<close>; neither is part of the source file and both are taken as given.
\<close>

fun visit_binary_pairs ::
  "(element \<Rightarrow> element \<Rightarrow> bool) \<Rightarrow> (element \<Rightarrow> element \<Rightarrow> bool)
    \<Rightarrow> element set option \<Rightarrow> element set option \<Rightarrow> bool
    \<Rightarrow> element \<Rightarrow> (element \<times> element) list \<Rightarrow> (element \<times> element) list" where
  "visit_binary_pairs compare references consider_as_foreign_keys consider_as_referenced_keys
      any_operator (BinaryExpression i opr left right) pairs =
    (if \<not> any_operator \<and> opr \<noteq> operators_eq then pairs
     else if \<not> isinstance_ColumnElement left \<or> \<not> isinstance_ColumnElement right then pairs
     else if truthy consider_as_foreign_keys then
       (if left \<in> members consider_as_foreign_keys
           \<and> (compare right left \<or> right \<notin> members consider_as_foreign_keys)
        then pairs @ [(right, left)]
        else if right \<in> members consider_as_foreign_keys
           \<and> (compare left right \<or> left \<notin> members consider_as_foreign_keys)
        then pairs @ [(left, right)]
        else pairs)
     else if truthy consider_as_referenced_keys then
       (if left \<in> members consider_as_referenced_keys
           \<and> (compare right left \<or> right \<notin> members consider_as_referenced_keys)
        then pairs @ [(left, right)]
        else if right \<in> members consider_as_referenced_keys
           \<and> (compare left right \<or> left \<notin> members consider_as_referenced_keys)
        then pairs @ [(right, left)]
        else pairs)
     else if isinstance_Column left \<and> isinstance_Column right then
       (if references left right then pairs @ [(right, left)]
        else if references right left then pairs @ [(left, right)]
        else pairs)
     else pairs)"
| "visit_binary_pairs compare references consider_as_foreign_keys consider_as_referenced_keys
      any_operator e pairs = pairs"

definition criterion_as_pairs ::
  "(element \<Rightarrow> element \<Rightarrow> bool) \<Rightarrow> (element \<Rightarrow> element \<Rightarrow> bool) \<Rightarrow> element
    \<Rightarrow> element set option \<Rightarrow> element set option \<Rightarrow> bool
    \<Rightarrow> error + (element \<times> element) list" where
  "criterion_as_pairs compare references expression consider_as_foreign_keys
      consider_as_referenced_keys any_operator =
    (if truthy consider_as_foreign_keys \<and> truthy consider_as_referenced_keys
     then Inl ArgumentError
     else Inr (fold (visit_binary_pairs compare references consider_as_foreign_keys
                       consider_as_referenced_keys any_operator)
                    (iterate expression) []))"

section \<open>What the theorems about \<open>reduce_columns\<close> are stated with\<close>

text \<open>\<open>cset_no_text\<close> of a call: the first occurrences of the columns, text clauses left out.\<close>

definition columns_no_text :: "element list \<Rightarrow> element list" where
  "columns_no_text columns = filter (\<lambda>c. \<not> is_text_clause c) (keep_first {} columns)"

text \<open>
  A foreign key of \<open>col\<close> makes it redundant: the key resolves to a column that shares
  lineage with some other column of the set (of the same name, under \<open>only_synonyms\<close>).
\<close>

definition fk_match :: "store \<Rightarrow> bool \<Rightarrow> element list \<Rightarrow> element \<Rightarrow> fk_column \<Rightarrow> bool" where
  "fk_match S only_synonyms cset_no_text col fk =
     (case fk of
        FkColumn fk_col \<Rightarrow>
          list_ex (\<lambda>c. c \<noteq> col \<and> shares_lineage S fk_col (oid_of c)
                       \<and> (\<not> only_synonyms \<or> name S (oid_of c) = name S (oid_of col)))
                  cset_no_text
      | _ \<Rightarrow> False)"

definition fk_redundant :: "store \<Rightarrow> bool \<Rightarrow> element list \<Rightarrow> element \<Rightarrow> bool" where
  "fk_redundant S only_synonyms cset_no_text col =
     list_ex (fk_match S only_synonyms cset_no_text col) (foreign_keys_of S col)"

text \<open>
  A foreign key of \<open>col\<close> is dereferenced and does not resolve: one of its keys has no
  referenced column or table, and the set holds another column to compare with.
\<close>

definition fk_unresolved :: "store \<Rightarrow> element list \<Rightarrow> element \<Rightarrow> bool" where
  "fk_unresolved S cset_no_text col =
     (list_ex (\<lambda>fk. \<not> fk_resolves fk) (foreign_keys_of S col)
      \<and> list_ex (\<lambda>c. c \<noteq> col) cset_no_text)"

text \<open>
  The columns that the foreign-key pass omits, and the set \<open>omit\<close> at the end of a call
  that returns, as the code computes it.
\<close>

definition fk_omitted :: "store \<Rightarrow> bool \<Rightarrow> element list \<Rightarrow> element set" where
  "fk_omitted S only_synonyms columns =
     set (filter (fk_redundant S only_synonyms (columns_no_text columns))
                 (columns_no_text columns))"

definition omitted_columns ::
  "store \<Rightarrow> bool \<Rightarrow> element list \<Rightarrow> element option list \<Rightarrow> element set" where
  "omitted_columns S only_synonyms columns clauses =
     traverse_clauses S only_synonyms (columns_no_text columns) clauses
       (fk_omitted S only_synonyms columns)"

text \<open>
  The exception of a foreign key that does not resolve, and the exception a call raises
  when none is ignored: that of the first foreign key without a referenced column or
  table, of the first column that has one and another column to compare with.
\<close>

fun fk_error :: "fk_column \<Rightarrow> error option" where
  "fk_error NoReferencedColumn = Some NoReferencedColumnError"
| "fk_error NoReferencedTable = Some NoReferencedTableError"
| "fk_error (FkColumn i) = None"

definition first_unresolved :: "store \<Rightarrow> element list \<Rightarrow> error option" where
  "first_unresolved S cset_no_text =
     (case find (fk_unresolved S cset_no_text) cset_no_text of
        None \<Rightarrow> None
      | Some col \<Rightarrow>
          (case find (\<lambda>fk. \<not> fk_resolves fk) (foreign_keys_of S col) of
             None \<Rightarrow> None
           | Some fk \<Rightarrow> fk_error fk))"

text \<open>
  Redundancy through the join clauses, said without the visitor. The equality
  predicates inside an expression, however deeply nested, in the order of the
  depth-first visit, each as its two sides.
\<close>

fun equalities :: "element \<Rightarrow> (element \<times> element) list" where
  "equalities (BinaryExpression i opr l r) =
     (if opr = operators_eq then [(l, r)] else []) @ equalities l @ equalities r"
| "equalities (UnaryExpression i m e) = equalities e"
| "equalities (Label i e) = equalities e"
| "equalities (Grouping i e) = equalities e"
| "equalities (ScalarSelect i es) = concat (map equalities es)"
| "equalities (LabelReference i e) = equalities e"
| "equalities (ClauseList i es) = concat (map equalities es)"
| "equalities (Alias i e) = equalities e"
| "equalities (Join i l r on) = equalities l @ equalities r @ equalities on"
| "equalities (FunctionElement i es) = concat (map equalities es)"
| "equalities e = []"

definition clause_equalities :: "element option list \<Rightarrow> (element \<times> element) list" where
  "clause_equalities clauses =
     concat (map (\<lambda>clause. case clause of None \<Rightarrow> [] | Some e \<Rightarrow> equalities e) clauses)"

text \<open>
  A side of an equality is still kept: it is in the proxy set of a column of the set
  that has not been omitted.
\<close>

definition still_kept :: "store \<Rightarrow> element list \<Rightarrow> element set \<Rightarrow> element \<Rightarrow> bool" where
  "still_kept S cset_no_text omitted x =
     list_ex (\<lambda>c. c \<notin> omitted \<and> oid_of x \<in> set (proxy_set S (oid_of c))) cset_no_text"

text \<open>
  The first match of a scan in reverse insertion order: the last element of the list
  that passes the test.
\<close>

definition last_match :: "('a \<Rightarrow> bool) \<Rightarrow> 'a list \<Rightarrow> 'a option" where
  "last_match P xs = (case filter P xs of [] \<Rightarrow> None | y # ys \<Rightarrow> Some (last (y # ys)))"

text \<open>
  The column \<open>c\<close> is what the equality of \<open>left\<close> and \<open>right\<close> makes redundant: it shares
  lineage with the right-hand side and, under \<open>only_synonyms\<close>, has the name of the
  left-hand side.
\<close>

definition equated :: "store \<Rightarrow> bool \<Rightarrow> element \<Rightarrow> element \<Rightarrow> element \<Rightarrow> bool" where
  "equated S only_synonyms left right c =
     (shares_lineage S (oid_of c) (oid_of right)
      \<and> (only_synonyms \<longrightarrow> name S (oid_of c) = name S (oid_of left)))"

text \<open>
  One equality, processed after the columns in \<open>omitted\<close> have gone: when both its sides
  are still kept, the first match in reverse insertion order becomes redundant.
\<close>

definition equality_step ::
  "store \<Rightarrow> bool \<Rightarrow> element list \<Rightarrow> element \<times> element \<Rightarrow> element set \<Rightarrow> element set" where
  "equality_step S only_synonyms cset_no_text eq omitted =
     (if still_kept S cset_no_text omitted (fst eq) \<and> still_kept S cset_no_text omitted (snd eq)
      then (case last_match (equated S only_synonyms (fst eq) (snd eq)) cset_no_text of
              Some c \<Rightarrow> insert c omitted
            | None \<Rightarrow> omitted)
      else omitted)"

text \<open>
  The redundant columns of a call: those redundant through a foreign key, then those
  the equalities of the join clauses add, one equality after the other.
\<close>

definition redundant_columns ::
  "store \<Rightarrow> bool \<Rightarrow> element list \<Rightarrow> element option list \<Rightarrow> element set" where
  "redundant_columns S only_synonyms columns clauses =
     fold (equality_step S only_synonyms (columns_no_text columns)) (clause_equalities clauses)
       (fk_omitted S only_synonyms columns)"

text \<open>
  The example of the specification: \<open>t1.id\<close> is object 1, \<open>t2.id\<close> object 2 and
  \<open>t2.t1_id\<close> object 3, with a foreign key to \<open>t1.id\<close>; every column is its own proxy.
\<close>

definition example_store :: store where
  "example_store = \<lparr> proxy_set = (\<lambda>i. [i]),
                      foreign_keys = (\<lambda>i. if i = 3 then [FkColumn 1] else []),
                      name = (\<lambda>i. if i = 3 then ''t1_id'' else ''id''),
                      annotations_adapt_column = (\<lambda>i. None) \<rparr>"

text \<open>A column, object 1, whose foreign key names a table that does not exist.\<close>

definition unresolved_store :: store where
  "unresolved_store = \<lparr> proxy_set = (\<lambda>i. [i]),
                         foreign_keys = (\<lambda>i. if i = 1 then [NoReferencedTable] else []),
                         name = (\<lambda>i. ''id''),
                         annotations_adapt_column = (\<lambda>i. None) \<rparr>"

text \<open>
  A column, object 5, of a subquery over the table of column 1: its proxy set holds
  itself and column 1.
\<close>

definition proxy_store :: store where
  "proxy_store = \<lparr> proxy_set = (\<lambda>i. if i = 5 then [5, 1] else [i]),
                    foreign_keys = (\<lambda>i. []),
                    name = (\<lambda>i. ''id''),
                    annotations_adapt_column = (\<lambda>i. None) \<rparr>"

text \<open>A store of collections with one collection in use, the two columns 1 and 2.\<close>

definition two_columns :: collections where
  "two_columns = \<lparr> contents = (\<lambda>a. if a = 0 then [Column 1, Column 2] else []),
                    allocated = 1 \<rparr>"

section \<open>\<open>ClauseAdapter\<close>\<close>

text \<open>
  Modelled from the spec: the class tests and flags that \<open>replace\<close> and \<open>_locate_col\<close>
  read belong to the node classes, which are not part of the source file. A function
  element is both a FROM clause and a column element; the immutable nodes are the
  columns, the tables and the singleton constants \<open>NULL\<close>, \<open>TRUE\<close> and \<open>FALSE\<close>.
\<close>

fun isinstance_FromClause :: "element \<Rightarrow> bool" where
  "isinstance_FromClause (TableClause i) = True"
| "isinstance_FromClause (Alias i e) = True"
| "isinstance_FromClause (Join i l r on) = True"
| "isinstance_FromClause (FunctionElement i es) = True"
| "isinstance_FromClause e = False"

fun isinstance_FunctionElement :: "element \<Rightarrow> bool" where
  "isinstance_FunctionElement (FunctionElement i es) = True"
| "isinstance_FunctionElement e = False"

fun isinstance_Alias :: "element \<Rightarrow> bool" where
  "isinstance_Alias (Alias i e) = True"
| "isinstance_Alias e = False"

fun isinstance_TableClause :: "element \<Rightarrow> bool" where
  "isinstance_TableClause (TableClause i) = True"
| "isinstance_TableClause e = False"

fun is_singleton_constant :: "element \<Rightarrow> bool" where
  "is_singleton_constant (Null i) = True"
| "is_singleton_constant (True_constant i) = True"
| "is_singleton_constant (False_constant i) = True"
| "is_singleton_constant e = False"

fun is_immutable :: "element \<Rightarrow> bool" where
  "is_immutable (Column i) = True"
| "is_immutable (ColumnClause i) = True"
| "is_immutable (TableClause i) = True"
| "is_immutable (Null i) = True"
| "is_immutable (True_constant i) = True"
| "is_immutable (False_constant i) = True"
| "is_immutable e = False"

text \<open>
  The target selectable of an adapter, as the adapter uses it: the object itself and
  its methods \<open>corresponding_column(col, require_embedded)\<close>, \<open>is_derived_from(col)\<close> and
  \<open>exported_columns.get(name)\<close>, none of them part of the source file and all taken as
  given.
\<close>

record selectable =
  selectable_element :: element
  corresponding_column :: "element \<Rightarrow> bool \<Rightarrow> element option"
  is_derived_from :: "element \<Rightarrow> bool"
  exported_columns :: "string \<Rightarrow> element option"

text \<open>
  The fields that \<open>ClauseAdapter.__init__\<close> sets. \<open>equivalents\<close> is a dictionary, kept
  as an association list; \<open>include_fn\<close>, \<open>exclude_fn\<close> and \<open>adapt_from_selectables\<close> may be
  \<open>None\<close>.
\<close>

record clause_adapter =
  selectable :: selectable
  include_fn :: "(element \<Rightarrow> bool) option"
  exclude_fn :: "(element \<Rightarrow> bool) option"
  equivalents :: "(element \<times> element list) list"
  adapt_on_names :: bool
  adapt_from_selectables :: "selectable list option"

definition ClauseAdapter_init ::
  "selectable \<Rightarrow> (element \<times> element list) list option \<Rightarrow> (element \<Rightarrow> bool) option
    \<Rightarrow> (element \<Rightarrow> bool) option \<Rightarrow> bool \<Rightarrow> selectable list option \<Rightarrow> clause_adapter" where
  "ClauseAdapter_init sel equivs inc exc on_names from_selectables =
     \<lparr> selectable = sel, include_fn = inc, exclude_fn = exc,
       equivalents = (case equivs of None \<Rightarrow> [] | Some m \<Rightarrow> m),
       adapt_on_names = on_names, adapt_from_selectables = from_selectables \<rparr>"

text \<open>\<open>if self.adapt_from_selectables\<close>: neither \<open>None\<close> nor empty.\<close>

definition adapt_from :: "clause_adapter \<Rightarrow> selectable list" where
  "adapt_from A = (case adapt_from_selectables A of None \<Rightarrow> [] | Some adps \<Rightarrow> adps)"

text \<open>
  \<open>_corresponding_column\<close>, with its loop over \<open>self.equivalents[col]\<close> as a second
  function. The set \<open>seen\<close> grows with every nested call and holds keys of the
  dictionary only, which bounds the recursion.
\<close>

function corresponding_column_rec ::
    "store \<Rightarrow> clause_adapter \<Rightarrow> element \<Rightarrow> bool \<Rightarrow> element set \<Rightarrow> element option"
  and corresponding_column_equivs ::
    "store \<Rightarrow> clause_adapter \<Rightarrow> element list \<Rightarrow> bool \<Rightarrow> element set \<Rightarrow> element option"
where
  "corresponding_column_rec S A col require_embedded seen =
    (case corresponding_column (selectable A) col require_embedded of
       Some newcol \<Rightarrow> Some newcol
     | None \<Rightarrow>
        (if map_of (equivalents A) col \<noteq> None \<and> col \<notin> seen then
           (case corresponding_column_equivs S A (the (map_of (equivalents A) col))
                   require_embedded (insert col seen) of
              Some newcol \<Rightarrow> Some newcol
            | None \<Rightarrow>
                if adapt_on_names A then exported_columns (selectable A) (name S (oid_of col))
                else None)
         else if adapt_on_names A then exported_columns (selectable A) (name S (oid_of col))
         else None))"
| "corresponding_column_equivs S A [] require_embedded seen = None"
| "corresponding_column_equivs S A (eqv # rest) require_embedded seen =
    (case corresponding_column_rec S A eqv require_embedded seen of
       Some newcol \<Rightarrow> Some newcol
     | None \<Rightarrow> corresponding_column_equivs S A rest require_embedded seen)"
  by pat_completeness auto
termination
proof (relation "measures
    [\<lambda>x. case x of
        Inl (S, A, col, r, seen) \<Rightarrow> card (fst ` set (equivalents A) - seen)
      | Inr (S, A, es, r, seen) \<Rightarrow> card (fst ` set (equivalents A) - seen),
     \<lambda>x. case x of
        Inl (S, A, col, r, seen) \<Rightarrow> 0
      | Inr (S, A, es, r, seen) \<Rightarrow> Suc (length es)]")
  show "wf (measures
    [\<lambda>x. case x of
        Inl (S, A, col, r, seen) \<Rightarrow> card (fst ` set (equivalents A) - seen)
      | Inr (S, A, es, r, seen) \<Rightarrow> card (fst ` set (equivalents A) - seen),
     \<lambda>x. case x of
        Inl (S, A, col, r, seen) \<Rightarrow> 0
      | Inr (S, A, es, r, seen) \<Rightarrow> Suc (length es)])"
    by simp
next
  fix S :: store and A :: clause_adapter and col :: element and require_embedded :: bool
    and seen :: "element set"
  assume "map_of (equivalents A) col \<noteq> None \<and> col \<notin> seen"
  then have "col \<in> fst ` set (equivalents A) - seen"
    by (auto simp: map_of_eq_None_iff)
  then have "card (fst ` set (equivalents A) - insert col seen)
      < card (fst ` set (equivalents A) - seen)"
    by (intro psubset_card_mono) auto
  then show "(Inr (S, A, the (map_of (equivalents A) col), require_embedded, insert col seen),
              Inl (S, A, col, require_embedded, seen))
      \<in> measures
    [\<lambda>x. case x of
        Inl (S, A, col, r, seen) \<Rightarrow> card (fst ` set (equivalents A) - seen)
      | Inr (S, A, es, r, seen) \<Rightarrow> card (fst ` set (equivalents A) - seen),
     \<lambda>x. case x of
        Inl (S, A, col, r, seen) \<Rightarrow> 0
      | Inr (S, A, es, r, seen) \<Rightarrow> Suc (length es)]"
    by simp
qed auto

text \<open>
  \<open>ClauseAdapter.replace(col, _include_singleton_constants)\<close>: \<open>None\<close> for no
  substitution.
\<close>

definition replace :: "store \<Rightarrow> clause_adapter \<Rightarrow> element \<Rightarrow> bool \<Rightarrow> element option" where
  "replace S A col include_singleton_constants =
    (if isinstance_FromClause col \<and> \<not> isinstance_FunctionElement col then
       (if is_derived_from (selectable A) col then
          (if adapt_from A \<noteq> [] \<and> \<not> list_ex (\<lambda>adp. is_derived_from adp col) (adapt_from A)
           then None
           else Some (selectable_element (selectable A)))
        else if isinstance_Alias col \<and> isinstance_TableClause (element_of col) then Some col
        else None)
     else if \<not> isinstance_ColumnElement col then None
     else if \<not> include_singleton_constants \<and> is_singleton_constant col then None
     else
       (let col = (case annotations_adapt_column S (oid_of col) of
                     Some annotated \<Rightarrow> annotated
                   | None \<Rightarrow> col)
        in if adapt_from A \<noteq> [] \<and> map_of (equivalents A) col = None
              \<and> \<not> list_ex (\<lambda>adp. corresponding_column adp col False \<noteq> None) (adapt_from A)
           then None
           else if include_fn A \<noteq> None \<and> \<not> the (include_fn A) col then None
           else if exclude_fn A \<noteq> None \<and> the (exclude_fn A) col then None
           else corresponding_column_rec S A col True {}))"

section \<open>\<open>ColumnAdapter\<close>\<close>

text \<open>
  A column adapter: the fields of the clause adapter it extends, \<open>adapt_required\<close>,
  \<open>allow_label_resolve\<close>, the wrapped adapter \<open>_wrap\<close>, the next visitor \<open>_next\<close> of a
  chain, the dictionary behind \<open>columns\<close> (an absent key is computed by \<open>_locate_col\<close>
  and stored), and whether \<open>columns\<close> is that dictionary inside an
  \<open>_IncludeExcludeMapping\<close>.
\<close>

datatype column_adapter = ColumnAdapter
  (base: clause_adapter)
  (adapt_required: bool)
  (allow_label_resolve: bool)
  (wrap_field: "column_adapter option")
  (next_field: "column_adapter option")
  (columns_dict: "element \<Rightarrow> element option option")
  (include_exclude_mapping: bool)

definition ColumnAdapter_init ::
  "selectable \<Rightarrow> (element \<times> element list) list option \<Rightarrow> bool \<Rightarrow> (element \<Rightarrow> bool) option
    \<Rightarrow> (element \<Rightarrow> bool) option \<Rightarrow> bool \<Rightarrow> bool \<Rightarrow> selectable list option \<Rightarrow> column_adapter" where
  "ColumnAdapter_init sel equivs required inc exc on_names label_resolve from_selectables =
     ColumnAdapter (ClauseAdapter_init sel equivs inc exc on_names from_selectables)
       required label_resolve None None (\<lambda>key. None) (inc \<noteq> None \<or> exc \<noteq> None)"


text \<open>
  Modelled from the spec: \<open>visitor_iterator\<close> is inherited from the traversal classes,
  which are not part of the source file: the adapter itself, then the visitors chained
  to it. \<open>_locate_col\<close> calls only \<open>replace\<close> on them, which reads the clause adapter's
  fields.
\<close>

fun visitor_iterator :: "column_adapter \<Rightarrow> clause_adapter list" where
  "visitor_iterator (ColumnAdapter b required label_resolve w n d m) =
     b # (case n of None \<Rightarrow> [] | Some v \<Rightarrow> visitor_iterator v)"

text \<open>
  The loop \<open>for vis in self.visitor_iterator\<close> of \<open>_locate_col\<close>: the first substitution
  that a visitor's \<open>replace\<close> gives, with singleton constants included.
\<close>

fun first_replace :: "store \<Rightarrow> clause_adapter list \<Rightarrow> element \<Rightarrow> element option" where
  "first_replace S [] col = None"
| "first_replace S (vis # rest) col =
     (case replace S vis col True of
        Some c \<Rightarrow> Some c
      | None \<Rightarrow> first_replace S rest col)"

text \<open>
  What a call changes outside the adapter: the objects that the inherited cloning
  traversal creates (\<open>heap\<close>, whatever it is) and the attribute \<open>_allow_label_resolve\<close>
  that \<open>_locate_col\<close> sets on the adapted column.
\<close>

record 'h world =
  heap :: 'h
  allow_label_resolve_attr :: "oid \<Rightarrow> bool option"

text \<open>
  \<open>_locate_col\<close>. \<open>clause_traverse\<close> is \<open>ClauseAdapter.traverse\<close>, the inherited replacing
  traversal that clones a node that is not immutable; it is not part of the source file
  and is taken as given: from the visitors, the node and the heap it gives the new node
  and the new heap.
\<close>

fun locate_col ::
  "(clause_adapter list \<Rightarrow> element \<Rightarrow> 'h \<Rightarrow> element \<times> 'h) \<Rightarrow> store \<Rightarrow> column_adapter
    \<Rightarrow> element \<Rightarrow> 'h world \<Rightarrow> element option \<times> 'h world" where
  "locate_col clause_traverse S (ColumnAdapter b required label_resolve w n d m) col wd =
    (let self = ColumnAdapter b required label_resolve w n d m;
         (c, wd1) =
           (if is_immutable col then
              (case first_replace S (visitor_iterator self) col of
                 Some c \<Rightarrow> (c, wd)
               | None \<Rightarrow> (col, wd))
            else
              (case clause_traverse (visitor_iterator self) col (heap wd) of
                 (c, h) \<Rightarrow> (c, wd\<lparr>heap := h\<rparr>)));
         (c, wd2) =
           (case w of
              Some wrapped \<Rightarrow>
                (case locate_col clause_traverse S wrapped c wd1 of
                   (Some c2, wd') \<Rightarrow> (c2, wd')
                 | (None, wd') \<Rightarrow> (c, wd'))
            | None \<Rightarrow> (c, wd1))
     in if required \<and> c = col then (None, wd2)
        else if c \<noteq> col then
          (Some c, wd2\<lparr>allow_label_resolve_attr :=
                        (allow_label_resolve_attr wd2)(oid_of c \<mapsto> label_resolve)\<rparr>)
        else (Some c, wd2))"

text \<open>
  \<open>self.columns[key]\<close>: \<open>_IncludeExcludeMapping.__getitem__\<close> when the adapter has an
  include or exclude function, the dictionary otherwise. The result comes with the
  adapter as the call leaves it (the dictionaries filled) and the world.
\<close>

fun columns_getitem ::
  "(clause_adapter list \<Rightarrow> element \<Rightarrow> 'h \<Rightarrow> element \<times> 'h) \<Rightarrow> store \<Rightarrow> column_adapter
    \<Rightarrow> element \<Rightarrow> 'h world \<Rightarrow> element option \<times> column_adapter \<times> 'h world" where
  "columns_getitem clause_traverse S (ColumnAdapter b required label_resolve w n d m) key wd =
    (let self = ColumnAdapter b required label_resolve w n d m in
     if m \<and> ((include_fn b \<noteq> None \<and> \<not> the (include_fn b) key)
             \<or> (exclude_fn b \<noteq> None \<and> the (exclude_fn b) key)) then
       (case w of
          Some wrapped \<Rightarrow>
            (case columns_getitem clause_traverse S wrapped key wd of
               (val, wrapped', wd') \<Rightarrow>
                 (val, ColumnAdapter b required label_resolve (Some wrapped') n d m, wd'))
        | None \<Rightarrow> (Some key, self, wd))
     else
       (case d key of
          Some val \<Rightarrow> (val, self, wd)
        | None \<Rightarrow>
            (case locate_col clause_traverse S self key wd of
               (val, wd') \<Rightarrow>
                 (val, ColumnAdapter b required label_resolve w n (d(key \<mapsto> val)) m, wd'))))"

text \<open>\<open>ColumnAdapter.traverse(obj)\<close> is \<open>self.columns[obj]\<close>.\<close>

definition traverse ::
  "(clause_adapter list \<Rightarrow> element \<Rightarrow> 'h \<Rightarrow> element \<times> 'h) \<Rightarrow> store \<Rightarrow> column_adapter
    \<Rightarrow> element \<Rightarrow> 'h world \<Rightarrow> element option \<times> column_adapter \<times> 'h world" where
  "traverse clause_traverse S A obj wd = columns_getitem clause_traverse S A obj wd"

section \<open>What the theorems about the adapters are stated with\<close>

text \<open>
  The first step of \<open>_locate_col\<close>, the adapter's own mapping (its visitors' \<open>replace\<close>
  on an immutable node, the inherited traversal on any other), and its last step, the
  \<open>adapt_required\<close> test and the write of \<open>_allow_label_resolve\<close>.
\<close>

definition own_step ::
  "(clause_adapter list \<Rightarrow> element \<Rightarrow> 'h \<Rightarrow> element \<times> 'h) \<Rightarrow> store \<Rightarrow> column_adapter
    \<Rightarrow> element \<Rightarrow> 'h world \<Rightarrow> element \<times> 'h world" where
  "own_step clause_traverse S A col wd =
     (if is_immutable col then
        (case first_replace S (visitor_iterator A) col of
           Some c \<Rightarrow> (c, wd)
         | None \<Rightarrow> (col, wd))
      else
        (case clause_traverse (visitor_iterator A) col (heap wd) of
           (c, h) \<Rightarrow> (c, wd\<lparr>heap := h\<rparr>)))"

definition last_step ::
  "column_adapter \<Rightarrow> element \<Rightarrow> element \<Rightarrow> 'h world \<Rightarrow> element option \<times> 'h world" where
  "last_step A col c wd =
     (if adapt_required A \<and> c = col then (None, wd)
      else if c \<noteq> col then
        (Some c, wd\<lparr>allow_label_resolve_attr :=
                     (allow_label_resolve_attr wd)(oid_of c \<mapsto> allow_label_resolve A)\<rparr>)
      else (Some c, wd))"

text \<open>
  The target of a visitor keeps a column: the column has no \<open>adapt_column\<close> annotation
  and the target selectable maps it to itself, or to nothing at all, with no equivalent
  and no lookup by name to fall back on.
\<close>

definition target_keeps :: "store \<Rightarrow> element \<Rightarrow> clause_adapter \<Rightarrow> bool" where
  "target_keeps S c vis =
     (annotations_adapt_column S (oid_of c) = None
      \<and> (corresponding_column (selectable vis) c True = Some c
         \<or> (corresponding_column (selectable vis) c True = None
            \<and> map_of (equivalents vis) c = None \<and> \<not> adapt_on_names vis)))"

text \<open>
  An adapter keeps a column: it has no \<open>adapt_required\<close>, the targets of all its
  visitors keep the column, its dictionary has no entry for the column other than the
  column itself, and the same holds of the adapter it wraps.
\<close>

fun adapter_keeps :: "store \<Rightarrow> column_adapter \<Rightarrow> element \<Rightarrow> bool" where
  "adapter_keeps S (ColumnAdapter b required label_resolve w n d m) c =
     (\<not> required
      \<and> list_all (target_keeps S c)
           (visitor_iterator (ColumnAdapter b required label_resolve w n d m))
      \<and> (d c = None \<or> d c = Some (Some c))
      \<and> (case w of None \<Rightarrow> True | Some wrapped \<Rightarrow> adapter_keeps S wrapped c))"

text \<open>
  Adapters for the examples. The inherited traversal is never reached in them (every
  node is a column or a constant), the world starts with no attribute set, and a target
  selectable is an alias of a table that maps the listed columns.
\<close>

definition no_clause_traverse :: "clause_adapter list \<Rightarrow> element \<Rightarrow> unit \<Rightarrow> element \<times> unit" where
  "no_clause_traverse visitors col h = (col, h)"

definition empty_world :: "unit world" where
  "empty_world = \<lparr> heap = (), allow_label_resolve_attr = (\<lambda>i. None) \<rparr>"

definition target :: "(element \<times> element) list \<Rightarrow> selectable" where
  "target correspondence =
     \<lparr> selectable_element = Alias 100 (TableClause 101),
       corresponding_column = (\<lambda>col require_embedded. map_of correspondence col),
       is_derived_from = (\<lambda>col. False),
       exported_columns = (\<lambda>n. None) \<rparr>"

text \<open>
  A target with a column for \<open>NULL\<close> (a subquery that selects a labelled \<open>NULL\<close>);
  two targets that map column 1 differently; a target that maps column 1 to its own
  column 2, adapted with and without \<open>adapt_required\<close>.
\<close>

definition null_adapter :: column_adapter where
  "null_adapter =
     ColumnAdapter_init (target [(Null 0, Column 5)]) None False None None False True None"



definition plain_adapter :: column_adapter where
  "plain_adapter =
     ColumnAdapter_init (target [(Column 1, Column 2), (Column 2, Column 2)])
       None False None None False True None"

definition required_adapter :: column_adapter where
  "required_adapter =
     ColumnAdapter_init (target [(Column 1, Column 2), (Column 2, Column 2)])
       None True None None False True None"

section \<open>Theorems about \<open>_make_slice\<close>\<close>









text \<open>
  Claim C10. With both slice bounds \<open>None\<close>, \<open>_make_slice\<close> returns the incoming limit
  and offset clauses unchanged, whatever they are.
\<close>

theorem make_slice_no_bounds:
  "make_slice limit_clause offset_clause None None = (limit_clause, offset_clause)"
  by (simp add: make_slice_def)


section \<open>Theorems about \<open>unwrap_order_by\<close>\<close>

lemma keep_first_set: "set (keep_first seen xs) = set xs - seen"
  by (induction xs arbitrary: seen) auto

lemma keep_first_distinct: "distinct (keep_first seen xs)"
  by (induction xs arbitrary: seen) (auto simp: keep_first_set)

lemma unwrap_order_by_loop_encounters:
  "unwrap_order_by_loop stack cols result =
     result @ keep_first cols (unwrap_order_by_encounters stack)"
  by (induction stack cols result rule: unwrap_order_by_loop.induct) simp_all

lemma unwrap_order_by_encounters_underlying:
  "list_all underlying_column (unwrap_order_by_encounters stack)"
  by (induction stack rule: unwrap_order_by_encounters.induct)
     (simp_all add: underlying_column_def)

lemma unwrap_order_by_keep_first:
  "unwrap_order_by clause = keep_first {} (unwrap_order_by_encounters [clause])"
  by (simp add: unwrap_order_by_def unwrap_order_by_loop_encounters)

lemma unwrap_order_by_underlying: "list_all underlying_column (unwrap_order_by clause)"
  using unwrap_order_by_encounters_underlying [of "[clause]"]
  by (auto simp: unwrap_order_by_keep_first keep_first_set list_all_iff)

text \<open>
  Claim C5. The result of \<open>unwrap_order_by\<close> has no duplicates; it is the sequence of
  column expressions that the loop reaches, each kept where it is first met; every
  member is a column expression with its ordering modifiers and labels stripped (not an
  ASC, DESC, NULLS FIRST or NULLS LAST node, not a label reference, and a label only
  when it labels a scalar select). A textual label reference is dropped, a labelled
  scalar select is kept as the label, alone and under DESC, and \<open>column.desc()\<close>,
  \<open>label("x", column).desc()\<close> and an ascending label of a grouping all give \<open>[column]\<close>.
  The last conjunct shows the order on a list of three: the bare column is met before
  the two that have to be unwrapped.
\<close>

theorem unwrap_order_by_columns:
  "distinct (unwrap_order_by clause)
   \<and> unwrap_order_by clause = keep_first {} (unwrap_order_by_encounters [clause])
   \<and> list_all underlying_column (unwrap_order_by clause)
   \<and> unwrap_order_by (TextualLabelReference r) = []
   \<and> unwrap_order_by (Label l (ScalarSelect s es)) = [Label l (ScalarSelect s es)]
   \<and> unwrap_order_by (UnaryExpression u (Some desc_op) (Label l (ScalarSelect s es)))
       = [Label l (ScalarSelect s es)]
   \<and> unwrap_order_by (UnaryExpression u (Some desc_op) (Column i)) = [Column i]
   \<and> unwrap_order_by (UnaryExpression u (Some desc_op) (Label l (Column i))) = [Column i]
   \<and> unwrap_order_by (UnaryExpression u (Some asc_op) (Label l (Grouping g (Column i))))
       = [Column i]
   \<and> unwrap_order_by (ClauseList q [UnaryExpression u (Some desc_op) (Column i),
                                      Label l (Column i), Column j])
       = (if i = j then [Column i] else [Column j, Column i])"
proof -
  have "distinct (unwrap_order_by clause)"
    by (simp add: unwrap_order_by_keep_first keep_first_distinct)
  moreover note unwrap_order_by_keep_first [of clause] unwrap_order_by_underlying [of clause]
  moreover have "unwrap_order_by (TextualLabelReference r) = []"
    by (simp add: unwrap_order_by_def)
  moreover have "unwrap_order_by (Label l (ScalarSelect s es)) = [Label l (ScalarSelect s es)]"
    by (simp add: unwrap_order_by_def)
  moreover have
    "unwrap_order_by (UnaryExpression u (Some desc_op) (Label l (ScalarSelect s es)))
       = [Label l (ScalarSelect s es)]"
    by (simp add: unwrap_order_by_def)
  moreover have "unwrap_order_by (UnaryExpression u (Some desc_op) (Column i)) = [Column i]"
    by (simp add: unwrap_order_by_def)
  moreover have
    "unwrap_order_by (UnaryExpression u (Some desc_op) (Label l (Column i))) = [Column i]"
    by (simp add: unwrap_order_by_def)
  moreover have
    "unwrap_order_by (UnaryExpression u (Some asc_op) (Label l (Grouping g (Column i))))
       = [Column i]"
    by (simp add: unwrap_order_by_def)
  moreover have
    "unwrap_order_by (ClauseList q [UnaryExpression u (Some desc_op) (Column i),
                                      Label l (Column i), Column j])
       = (if i = j then [Column i] else [Column j, Column i])"
    by (simp add: unwrap_order_by_def)
  ultimately show ?thesis by blast
qed

theorem unwrap_order_by_columns_witness:
  "unwrap_order_by (UnaryExpression 3 (Some desc_op) (Label 2 (Column 1))) = [Column 1]
   \<and> list_all underlying_column [Column 1]
   \<and> distinct [Column 1]"
  using unwrap_order_by_columns
    [of "UnaryExpression 3 (Some desc_op) (Label 2 (Column 1))" 0 0 0 "[]" 3 1]
  by (simp add: underlying_column_def)

section \<open>Theorems about \<open>find_left_clause_to_join_from\<close>\<close>

lemma join_from_candidates_no_selectables:
  "join_from_candidates can_join clauses [] onclause = []"
  by (simp add: join_from_candidates_def)

text \<open>
  Claim C9. With an ON clause given, when the narrowing passes (the loop over the
  clauses, then the "hide froms" pass) leave no index, the function returns every index
  \<open>0 .. len(clauses) - 1\<close>, and otherwise what the passes left; so with an ON clause and
  at least one clause the result is never empty. With no ON clause the result is what
  the passes left, the empty list when they left nothing. In particular, when
  \<open>join_to\<close> has no FROM object at all, the result is every index with an ON clause and
  the empty list without.
\<close>

theorem find_left_clause_to_join_from_fallback:
  "(hide_froms_pass clauses (join_from_candidates can_join clauses selectables (Some oc)) = []
      \<longrightarrow> find_left_clause_to_join_from can_join clauses selectables (Some oc)
            = [0..<length clauses])
   \<and> (hide_froms_pass clauses (join_from_candidates can_join clauses selectables (Some oc))
        \<noteq> []
      \<longrightarrow> find_left_clause_to_join_from can_join clauses selectables (Some oc)
            = hide_froms_pass clauses
                (join_from_candidates can_join clauses selectables (Some oc)))
   \<and> find_left_clause_to_join_from can_join clauses selectables None
        = hide_froms_pass clauses (join_from_candidates can_join clauses selectables None)
   \<and> (clauses \<noteq> []
      \<longrightarrow> find_left_clause_to_join_from can_join clauses selectables (Some oc) \<noteq> [])
   \<and> find_left_clause_to_join_from can_join clauses [] (Some oc) = [0..<length clauses]
   \<and> find_left_clause_to_join_from can_join clauses [] None = []"
  by (auto simp: find_left_clause_to_join_from_def Let_def join_from_candidates_no_selectables
        hide_froms_pass_def)

theorem find_left_clause_to_join_from_fallback_witness:
  "find_left_clause_to_join_from (\<lambda>f s. False)
      [\<lparr>from_oid = 1, from_c = [Column 10], from_hide_froms = []\<rparr>,
       \<lparr>from_oid = 2, from_c = [Column 20], from_hide_froms = []\<rparr>]
      [\<lparr>from_oid = 3, from_c = [Column 30], from_hide_froms = []\<rparr>]
      (Some (BinaryExpression 5 operators_eq (Column 40) (Column 30))) = [0, 1]
   \<and> find_left_clause_to_join_from (\<lambda>f s. False)
      [\<lparr>from_oid = 1, from_c = [Column 10], from_hide_froms = []\<rparr>,
       \<lparr>from_oid = 2, from_c = [Column 20], from_hide_froms = []\<rparr>]
      [\<lparr>from_oid = 3, from_c = [Column 30], from_hide_froms = []\<rparr>]
      None = []"
proof -
  let ?cs = "[\<lparr>from_oid = 1, from_c = [Column 10], from_hide_froms = []\<rparr>,
       \<lparr>from_oid = 2, from_c = [Column 20], from_hide_froms = []\<rparr>]"
  let ?sel = "[\<lparr>from_oid = 3, from_c = [Column 30], from_hide_froms = []\<rparr>]"
  let ?oc = "BinaryExpression 5 operators_eq (Column 40) (Column 30)"
  have upt: "[0..<2] = [0, Suc 0]" by (simp add: upt_rec)
  have h1: "hide_froms_pass ?cs (join_from_candidates (\<lambda>f s. False) ?cs ?sel (Some ?oc)) = []"
    by (simp add: hide_froms_pass_def join_from_candidates_def find_columns_def upt)
  have h2: "hide_froms_pass ?cs (join_from_candidates (\<lambda>f s. False) ?cs ?sel None) = []"
    by (simp add: hide_froms_pass_def join_from_candidates_def find_columns_def upt)
  show ?thesis
    using find_left_clause_to_join_from_fallback [of ?cs "\<lambda>f s. False" ?sel ?oc] h1 h2
    by (simp add: upt)
qed

section \<open>Theorems about \<open>criterion_as_pairs\<close>\<close>

text \<open>
  Claim C7, as stated, fails: both sets are supplied here, one of them empty, and the
  call returns the pairs instead of raising.
\<close>

theorem criterion_as_pairs_empty_set_counterexample:
  "criterion_as_pairs (\<lambda>a b. a = b) (\<lambda>a b. False)
      (BinaryExpression 3 operators_eq (Column 1) (Column 2))
      (Some {}) (Some {Column 1}) False = Inr [(Column 1, Column 2)]"
  by (simp add: criterion_as_pairs_def truthy_def members_def)

text \<open>
  Claim C7, amended. \<open>criterion_as_pairs\<close> raises \<open>ArgumentError\<close> exactly when
  \<open>consider_as_foreign_keys\<close> and \<open>consider_as_referenced_keys\<close> are both supplied and
  both non-empty; an empty set counts as not given.
\<close>

theorem criterion_as_pairs_argument_error:
  "(criterion_as_pairs compare references expression consider_as_foreign_keys
       consider_as_referenced_keys any_operator = Inl ArgumentError)
   = (\<exists>F R. consider_as_foreign_keys = Some F \<and> consider_as_referenced_keys = Some R
            \<and> F \<noteq> {} \<and> R \<noteq> {})"
  by (auto simp: criterion_as_pairs_def truthy_def split: option.splits)

section \<open>Theorems about \<open>reduce_columns\<close>\<close>

lemma fk_scan_columns_resolved:
  "fk_scan_columns S ign syn col (FkColumn t) cs =
     Inr (list_ex (\<lambda>c. c \<noteq> col \<and> shares_lineage S t (oid_of c)
                       \<and> (\<not> syn \<or> name S (oid_of c) = name S (oid_of col))) cs)"
  by (induction cs) auto

lemma fk_scan_columns_match:
  "fk_resolves fk \<Longrightarrow> fk_scan_columns S ign syn col fk cs = Inr (fk_match S syn cs col fk)"
  by (cases fk) (simp_all add: fk_scan_columns_resolved fk_match_def)

lemma fk_scan_columns_ignore:
  "\<not> fk_resolves fk \<Longrightarrow> fk_scan_columns S True syn col fk cs = Inr False"
  by (induction cs) (auto split: fk_column.splits)

lemma fk_scan_columns_alone:
  "\<not> fk_resolves fk \<Longrightarrow> \<not> list_ex (\<lambda>c. c \<noteq> col) cs
     \<Longrightarrow> fk_scan_columns S ign syn col fk cs = Inr False"
  by (induction cs) (auto split: fk_column.splits)

lemma fk_scan_columns_raises:
  "\<not> fk_resolves fk \<Longrightarrow> list_ex (\<lambda>c. c \<noteq> col) cs
     \<Longrightarrow> isl (fk_scan_columns S False syn col fk cs)"
  by (induction cs) (auto split: fk_column.splits)

lemma fk_match_unresolved: "\<not> fk_resolves fk \<Longrightarrow> \<not> fk_match S syn cs col fk"
  by (cases fk) (simp_all add: fk_match_def)

lemma fk_scan_columns_returns:
  "ign \<or> fk_resolves fk \<or> \<not> list_ex (\<lambda>c. c \<noteq> col) cs
     \<Longrightarrow> fk_scan_columns S ign syn col fk cs = Inr (fk_match S syn cs col fk)"
  using fk_scan_columns_match [of fk S ign syn col cs]
    fk_scan_columns_ignore [of fk S syn col cs]
    fk_scan_columns_alone [of fk col cs S ign syn]
    fk_match_unresolved [of fk S syn cs col]
  by (cases "fk_resolves fk") auto

lemma fk_scan_keys_returns:
  "ign \<or> \<not> (list_ex (\<lambda>fk. \<not> fk_resolves fk) fks \<and> list_ex (\<lambda>c. c \<noteq> col) cset)
     \<Longrightarrow> fk_scan_keys S ign syn cset col fks omit =
         Inr (if list_ex (fk_match S syn cset col) fks then insert col omit else omit)"
proof (induction fks arbitrary: omit)
  case Nil
  then show ?case by simp
next
  case (Cons fk fks)
  from Cons.prems have a: "ign \<or> fk_resolves fk \<or> \<not> list_ex (\<lambda>c. c \<noteq> col) cset"
    by auto
  from Cons.prems
  have b: "ign \<or> \<not> (list_ex (\<lambda>fk. \<not> fk_resolves fk) fks \<and> list_ex (\<lambda>c. c \<noteq> col) cset)"
    by auto
  show ?case
    by (simp add: fk_scan_columns_returns [OF a] Cons.IH [OF b])
qed

lemma fk_scan_keys_raises:
  "list_ex (\<lambda>fk. \<not> fk_resolves fk) fks \<Longrightarrow> list_ex (\<lambda>c. c \<noteq> col) cset
     \<Longrightarrow> isl (fk_scan_keys S False syn cset col fks omit)"
proof (induction fks arbitrary: omit)
  case Nil
  then show ?case by simp
next
  case (Cons fk fks)
  show ?case
  proof (cases "fk_resolves fk")
    case True
    with Cons.prems have "list_ex (\<lambda>fk. \<not> fk_resolves fk) fks" by simp
    from Cons.IH [OF this Cons.prems(2)] True show ?thesis
      by (simp add: fk_scan_columns_match)
  next
    case False
    from fk_scan_columns_raises [OF False Cons.prems(2), of S syn]
    show ?thesis by (auto simp: isl_def)
  qed
qed

lemma fk_scan_returns:
  "ign \<or> \<not> list_ex (fk_unresolved S cset) cols
     \<Longrightarrow> fk_scan S ign syn cset cols omit =
         Inr (omit \<union> set (filter (fk_redundant S syn cset) cols))"
proof (induction cols arbitrary: omit)
  case Nil
  then show ?case by simp
next
  case (Cons col cols)
  from Cons.prems
  have a: "ign \<or> \<not> (list_ex (\<lambda>fk. \<not> fk_resolves fk) (foreign_keys_of S col)
                      \<and> list_ex (\<lambda>c. c \<noteq> col) cset)"
    by (auto simp: fk_unresolved_def)
  from Cons.prems have b: "ign \<or> \<not> list_ex (fk_unresolved S cset) cols" by auto
  show ?case
    by (auto simp: fk_scan_keys_returns [OF a] Cons.IH [OF b] fk_redundant_def)
qed

lemma fk_scan_raises:
  "list_ex (fk_unresolved S cset) cols \<Longrightarrow> isl (fk_scan S False syn cset cols omit)"
proof (induction cols arbitrary: omit)
  case Nil
  then show ?case by simp
next
  case (Cons col cols)
  show ?case
  proof (cases "fk_unresolved S cset col")
    case True
    then have "isl (fk_scan_keys S False syn cset col (foreign_keys_of S col) omit)"
      by (simp add: fk_unresolved_def fk_scan_keys_raises)
    then show ?thesis by (auto simp: isl_def)
  next
    case False
    with Cons.prems have r: "list_ex (fk_unresolved S cset) cols" by simp
    from False
    have "\<not> (list_ex (\<lambda>fk. \<not> fk_resolves fk) (foreign_keys_of S col)
                      \<and> list_ex (\<lambda>c. c \<noteq> col) cset)"
      by (simp add: fk_unresolved_def)
    then have "fk_scan_keys S False syn cset col (foreign_keys_of S col) omit =
         Inr (if list_ex (fk_match S syn cset col) (foreign_keys_of S col)
              then insert col omit else omit)"
      by (intro fk_scan_keys_returns) simp
    with Cons.IH [OF r] show ?thesis by simp
  qed
qed

lemma resolved_only_simps:
  "proxy_set (resolved_only S) = proxy_set S" "name (resolved_only S) = name S"
  "foreign_keys (resolved_only S) = (\<lambda>i. filter fk_resolves (foreign_keys S i))"
  by (simp_all add: resolved_only_def)

lemma shares_lineage_resolved_only:
  "shares_lineage (resolved_only S) = shares_lineage S"
  by (intro ext) (simp add: shares_lineage_def resolved_only_simps)

lemma foreign_keys_of_resolved_only:
  "foreign_keys_of (resolved_only S) col = filter fk_resolves (foreign_keys_of S col)"
  by (simp add: foreign_keys_of_def resolved_only_simps filter_concat comp_def)

lemma fk_match_resolved_only: "fk_match (resolved_only S) = fk_match S"
  by (intro ext)
     (simp add: fk_match_def shares_lineage_resolved_only resolved_only_simps
        split: fk_column.splits)

lemma fk_redundant_resolved_only:
  "fk_redundant (resolved_only S) syn cset col = fk_redundant S syn cset col"
  using fk_match_unresolved [of _ S syn cset col]
  by (auto simp: fk_redundant_def foreign_keys_of_resolved_only fk_match_resolved_only
        list_ex_iff)

lemma fk_unresolved_resolved_only: "\<not> fk_unresolved (resolved_only S) cset col"
  by (simp add: fk_unresolved_def foreign_keys_of_resolved_only list_ex_iff)

lemma binary_match_resolved_only: "binary_match (resolved_only S) = binary_match S"
  by (intro ext) (simp add: binary_match_def shares_lineage_resolved_only resolved_only_simps)

lemma kept_proxies_resolved_only: "kept_proxies (resolved_only S) = kept_proxies S"
  by (intro ext) (simp add: kept_proxies_def resolved_only_simps)

lemma visit_binary_resolved_only:
  "visit_binary (resolved_only S) syn cset node omit = visit_binary S syn cset node omit"
  by (cases node)
     (simp_all only: visit_binary.simps binary_match_resolved_only kept_proxies_resolved_only)

lemma traverse_clauses_resolved_only:
  "traverse_clauses (resolved_only S) syn cset clauses omit
     = traverse_clauses S syn cset clauses omit"
proof -
  have "visit_binary (resolved_only S) syn cset = visit_binary S syn cset"
    by (intro ext) (rule visit_binary_resolved_only)
  then show ?thesis by (simp add: traverse_clauses_def)
qed

lemma reduce_columns_returns:
  "ign \<or> \<not> list_ex (fk_unresolved S (columns_no_text columns)) (columns_no_text columns)
   \<Longrightarrow> reduce_columns S ign syn columns clauses =
        Inr (filter (\<lambda>c. c \<notin> omitted_columns S syn columns clauses) (keep_first {} columns))"
  by (simp add: reduce_columns_def Let_def fk_scan_returns columns_no_text_def [symmetric]
        omitted_columns_def fk_omitted_def)

lemma reduce_columns_raises:
  "list_ex (fk_unresolved S (columns_no_text columns)) (columns_no_text columns)
   \<Longrightarrow> isl (reduce_columns S False syn columns clauses)"
  using fk_scan_raises [of S "columns_no_text columns" "columns_no_text columns" syn "{}"]
  by (auto simp: reduce_columns_def Let_def columns_no_text_def [symmetric] isl_def)

lemma omitted_columns_resolved_only:
  "omitted_columns (resolved_only S) syn columns clauses = omitted_columns S syn columns clauses"
  by (simp add: omitted_columns_def fk_omitted_def traverse_clauses_resolved_only
        fk_redundant_resolved_only)

lemma reduce_columns_ignore:
  "reduce_columns S True syn columns clauses
     = reduce_columns (resolved_only S) ign syn columns clauses"
proof -
  have "\<not> list_ex (fk_unresolved (resolved_only S) (columns_no_text columns))
            (columns_no_text columns)"
    by (simp add: fk_unresolved_resolved_only list_ex_iff)
  then have "reduce_columns (resolved_only S) ign syn columns clauses =
        Inr (filter (\<lambda>c. c \<notin> omitted_columns (resolved_only S) syn columns clauses)
                    (keep_first {} columns))"
    by (intro reduce_columns_returns) simp
  then show ?thesis
    by (simp add: reduce_columns_returns omitted_columns_resolved_only)
qed

lemma reduce_columns_result:
  assumes "reduce_columns S ign syn columns clauses = Inr r"
  shows "r = filter (\<lambda>c. c \<notin> omitted_columns S syn columns clauses) (keep_first {} columns)"
proof -
  have "ign \<or> \<not> list_ex (fk_unresolved S (columns_no_text columns)) (columns_no_text columns)"
  proof (rule ccontr)
    assume "\<not> ?thesis"
    then have "\<not> ign"
      and "list_ex (fk_unresolved S (columns_no_text columns)) (columns_no_text columns)"
      by auto
    with reduce_columns_raises [of S columns syn clauses] assms show False by simp
  qed
  from reduce_columns_returns [OF this, of syn clauses] assms
  show ?thesis by simp
qed

lemma fk_omitted_iff:
  "(c \<in> fk_omitted S syn columns)
     = (c \<in> set (columns_no_text columns) \<and> fk_redundant S syn (columns_no_text columns) c)"
  by (auto simp: fk_omitted_def)

lemma reduce_columns_example:
  "reduce_columns example_store False False [Column 1, Column 2, Column 3]
      [Some (BinaryExpression 4 operators_eq (Column 1) (Column 3))]
     = Inr [Column 1, Column 2]"
  by (simp add: reduce_columns_def example_store_def traverse_clauses_def clause_nodes_def
        foreign_keys_of_def shares_lineage_def kept_proxies_def binary_match_def)

lemma find_rev_last_match: "find P (rev xs) = last_match P xs"
proof (induction xs rule: rev_induct)
  case Nil
  then show ?case by (simp add: last_match_def)
next
  case (snoc x xs)
  then show ?case
    by (cases "filter P xs") (auto simp: last_match_def)
qed

lemma kept_proxies_still_kept:
  "(oid_of x \<in> kept_proxies S cset omit) = still_kept S cset omit x"
  by (auto simp: kept_proxies_def still_kept_def list_ex_iff)

lemma binary_match_equated: "binary_match S syn left right = equated S syn left right"
  by (intro ext) (auto simp: binary_match_def equated_def)

lemma visit_binary_equality:
  "visit_binary S syn cset (BinaryExpression i opr l r) omit =
     (if opr = operators_eq then equality_step S syn cset (l, r) omit else omit)"
  by (simp add: equality_step_def Let_def kept_proxies_still_kept find_rev_last_match
        binary_match_equated)

lemma fold_visit_binary_list:
  assumes "\<And>e omit. e \<in> set es \<Longrightarrow>
      fold (visit_binary S syn cset) (iterate e) omit
        = fold (equality_step S syn cset) (equalities e) omit"
  shows "fold (visit_binary S syn cset) (concat (map iterate es)) omit
     = fold (equality_step S syn cset) (concat (map equalities es)) omit"
  using assms by (induction es arbitrary: omit) simp_all

lemma fold_visit_binary_equalities:
  "fold (visit_binary S syn cset) (iterate e) omit
     = fold (equality_step S syn cset) (equalities e) omit"
proof (induction e arbitrary: omit)
  case (BinaryExpression i opr l r)
  then show ?case by (simp add: visit_binary_equality del: visit_binary.simps)
next
  case (ScalarSelect i es)
  then show ?case by (simp add: fold_visit_binary_list)
next
  case (ClauseList i es)
  then show ?case by (simp add: fold_visit_binary_list)
next
  case (FunctionElement i es)
  then show ?case by (simp add: fold_visit_binary_list)
qed simp_all

lemma traverse_clauses_equalities:
  "traverse_clauses S syn cset clauses omit
     = fold (equality_step S syn cset) (clause_equalities clauses) omit"
  unfolding traverse_clauses_def clause_nodes_def clause_equalities_def
  by (induction clauses arbitrary: omit)
     (simp_all add: fold_visit_binary_equalities split: option.splits)

lemma omitted_columns_redundant:
  "omitted_columns S syn columns clauses = redundant_columns S syn columns clauses"
  by (simp add: omitted_columns_def redundant_columns_def traverse_clauses_equalities)

lemma set_add_simps:
  "allocated (set_add a x H) = allocated H"
  "a' \<noteq> a \<Longrightarrow> contents (set_add a x H) a' = contents H a'"
  "set (contents (set_add a x H) a) = insert x (set (contents H a))"
  by (auto simp: set_add_def)

lemma new_collection_simps:
  "fst (new_collection xs H) = allocated H"
  "allocated (snd (new_collection xs H)) = Suc (allocated H)"
  "contents (snd (new_collection xs H)) (allocated H) = xs"
  "a \<noteq> allocated H \<Longrightarrow> contents (snd (new_collection xs H)) a = contents H a"
  by (simp_all add: new_collection_def)

lemma fk_scan_keys_heap_frame:
  "allocated (snd (fk_scan_keys_heap S ign syn cset omit col fks H)) = allocated H
   \<and> (\<forall>a. a \<noteq> omit \<longrightarrow> contents (snd (fk_scan_keys_heap S ign syn cset omit col fks H)) a
                           = contents H a)"
  by (induction fks arbitrary: H) (auto simp: set_add_simps split: sum.splits)

lemma fk_scan_keys_heap_pure:
  assumes "omit \<noteq> cset"
  shows "fk_scan_keys S ign syn (contents H cset) col fks (set (contents H omit))
     = (case fk_scan_keys_heap S ign syn cset omit col fks H of
          (Some e, H') \<Rightarrow> Inl e
        | (None, H') \<Rightarrow> Inr (set (contents H' omit)))"
proof (induction fks arbitrary: H)
  case Nil
  then show ?case by simp
next
  case (Cons fk fks)
  show ?case
  proof (cases "fk_scan_columns S ign syn col fk (contents H cset)")
    case (Inl e)
    then show ?thesis by simp
  next
    case (Inr found)
    let ?H = "if found then set_add omit col H else H"
    have c: "contents ?H cset = contents H cset"
      and o: "set (contents ?H omit) = (if found then insert col (set (contents H omit))
                                        else set (contents H omit))"
      using assms by (auto simp: set_add_simps)
    from Cons.IH [of ?H] Inr c o show ?thesis by auto
  qed
qed

lemma fk_scan_heap_frame:
  "allocated (snd (fk_scan_heap S ign syn cset omit cols H)) = allocated H
   \<and> (\<forall>a. a \<noteq> omit \<longrightarrow> contents (snd (fk_scan_heap S ign syn cset omit cols H)) a
                           = contents H a)"
proof (induction cols arbitrary: H)
  case Nil
  then show ?case by simp
next
  case (Cons col cols)
  obtain r H' where k: "fk_scan_keys_heap S ign syn cset omit col (foreign_keys_of S col) H = (r, H')"
    by (cases "fk_scan_keys_heap S ign syn cset omit col (foreign_keys_of S col) H")
  from fk_scan_keys_heap_frame [of S ign syn cset omit col "foreign_keys_of S col" H] k
  have f: "allocated H' = allocated H" "\<forall>a. a \<noteq> omit \<longrightarrow> contents H' a = contents H a"
    by simp_all
  show ?case
  proof (cases r)
    case None
    with k f Cons.IH [of H'] show ?thesis by simp
  next
    case (Some e)
    with k f show ?thesis by simp
  qed
qed

lemma fk_scan_heap_pure:
  assumes "omit \<noteq> cset"
  shows "fk_scan S ign syn (contents H cset) cols (set (contents H omit))
     = (case fk_scan_heap S ign syn cset omit cols H of
          (Some e, H') \<Rightarrow> Inl e
        | (None, H') \<Rightarrow> Inr (set (contents H' omit)))"
proof (induction cols arbitrary: H)
  case Nil
  then show ?case by simp
next
  case (Cons col cols)
  obtain r H' where k: "fk_scan_keys_heap S ign syn cset omit col (foreign_keys_of S col) H = (r, H')"
    by (cases "fk_scan_keys_heap S ign syn cset omit col (foreign_keys_of S col) H")
  from fk_scan_keys_heap_frame [of S ign syn cset omit col "foreign_keys_of S col" H] k assms
  have c: "contents H' cset = contents H cset" by simp
  show ?case
  proof (cases r)
    case None
    with k c Cons.IH [of H']
      fk_scan_keys_heap_pure [OF assms, of S ign syn H col "foreign_keys_of S col"]
    show ?thesis by simp
  next
    case (Some e)
    with k fk_scan_keys_heap_pure [OF assms, of S ign syn H col "foreign_keys_of S col"]
    show ?thesis by simp
  qed
qed

lemma visit_binary_heap_frame:
  "allocated (visit_binary_heap S syn cset omit node H) = allocated H
   \<and> (\<forall>a. a \<noteq> omit \<longrightarrow> contents (visit_binary_heap S syn cset omit node H) a = contents H a)"
  by (cases node) (auto simp: set_add_simps Let_def split: option.splits)

lemma visit_binary_heap_pure:
  "omit \<noteq> cset \<Longrightarrow>
   set (contents (visit_binary_heap S syn cset omit node H) omit)
     = visit_binary S syn (contents H cset) node (set (contents H omit))"
  by (cases node) (auto simp: set_add_simps Let_def split: option.splits)

lemma fold_visit_binary_heap_frame:
  "allocated (fold (visit_binary_heap S syn cset omit) nodes H) = allocated H
   \<and> (\<forall>a. a \<noteq> omit \<longrightarrow> contents (fold (visit_binary_heap S syn cset omit) nodes H) a
                           = contents H a)"
proof (induction nodes arbitrary: H)
  case Nil
  then show ?case by simp
next
  case (Cons n ns)
  from Cons.IH [of "visit_binary_heap S syn cset omit n H"]
    visit_binary_heap_frame [of S syn cset omit n H]
  show ?case by simp
qed

lemma fold_visit_binary_heap_pure:
  assumes "omit \<noteq> cset"
  shows "set (contents (fold (visit_binary_heap S syn cset omit) nodes H) omit)
     = fold (visit_binary S syn (contents H cset)) nodes (set (contents H omit))"
proof (induction nodes arbitrary: H)
  case Nil
  then show ?case by simp
next
  case (Cons n ns)
  from visit_binary_heap_frame [of S syn cset omit n H] assms
  have "contents (visit_binary_heap S syn cset omit n H) cset = contents H cset" by simp
  with Cons.IH [of "visit_binary_heap S syn cset omit n H"] visit_binary_heap_pure [OF assms]
  show ?case by simp
qed

lemma new_collection_ex:
  "\<exists>H'. new_collection xs H = (allocated H, H') \<and> allocated H' = Suc (allocated H)
      \<and> contents H' (allocated H) = xs
      \<and> (\<forall>a. a \<noteq> allocated H \<longrightarrow> contents H' a = contents H a)"
  by (simp add: new_collection_def)

lemma reduce_columns_heap_pure:
  "fst (reduce_columns_heap S ign syn columns clauses H)
     = reduce_columns S ign syn (contents H columns) clauses"
proof -
  let ?cs = "keep_first {} (contents H columns)"
  let ?nt = "filter (\<lambda>c. \<not> is_text_clause c) ?cs"
  let ?a1 = "allocated H"
  let ?a2 = "Suc (allocated H)"
  let ?a3 = "Suc (Suc (allocated H))"
  obtain H1 where n1: "new_collection ?cs H = (?a1, H1)"
    and a1: "allocated H1 = ?a2" and c1: "contents H1 ?a1 = ?cs"
    using new_collection_ex [of ?cs H] by blast
  obtain H2 where n2: "new_collection ?nt H1 = (?a2, H2)"
    and a2: "allocated H2 = ?a3" and c2: "contents H2 ?a2 = ?nt"
    and f2: "\<forall>a. a \<noteq> ?a2 \<longrightarrow> contents H2 a = contents H1 a"
    using new_collection_ex [of ?nt H1] a1 by auto
  obtain H3 where n3: "new_collection [] H2 = (?a3, H3)"
    and c3: "contents H3 ?a3 = []"
    and f3: "\<forall>a. a \<noteq> ?a3 \<longrightarrow> contents H3 a = contents H2 a"
    using new_collection_ex [of "[]" H2] a2 by auto
  have c3': "contents H3 ?a1 = ?cs" "contents H3 ?a2 = ?nt"
    using c1 c2 f2 f3 by simp_all
  obtain r H4 where f: "fk_scan_heap S ign syn ?a2 ?a3 ?nt H3 = (r, H4)"
    by (cases "fk_scan_heap S ign syn ?a2 ?a3 ?nt H3")
  have ne: "?a3 \<noteq> ?a2" by simp
  from fk_scan_heap_pure [OF ne, of S ign syn H3 ?nt] f c3 c3'
  have p: "fk_scan S ign syn ?nt ?nt {}
             = (case r of Some e \<Rightarrow> Inl e | None \<Rightarrow> Inr (set (contents H4 ?a3)))"
    by simp
  from fk_scan_heap_frame [of S ign syn ?a2 ?a3 ?nt H3] f c3'
  have c4: "contents H4 ?a1 = ?cs" "contents H4 ?a2 = ?nt" by simp_all
  show ?thesis
  proof (cases r)
    case (Some e)
    with p f n1 n2 n3 c1 c3' show ?thesis
      by (simp add: reduce_columns_heap_def reduce_columns_def Let_def)
  next
    case None
    let ?H5 = "fold (visit_binary_heap S syn ?a2 ?a3) (clause_nodes clauses) H4"
    from fold_visit_binary_heap_pure [OF ne, of S syn "clause_nodes clauses" H4] c4
    have o5: "set (contents ?H5 ?a3)
                = traverse_clauses S syn ?nt clauses (set (contents H4 ?a3))"
      by (simp add: traverse_clauses_def)
    from fold_visit_binary_heap_frame [of S syn ?a2 ?a3 "clause_nodes clauses" H4] c4
    have c5: "contents ?H5 ?a1 = ?cs" by simp
    obtain H6 where n6: "new_collection
          (filter (\<lambda>c. c \<notin> set (contents ?H5 ?a3)) (contents ?H5 ?a1)) ?H5
        = (allocated ?H5, H6)"
      and c6: "contents H6 (allocated ?H5)
                 = filter (\<lambda>c. c \<notin> set (contents ?H5 ?a3)) (contents ?H5 ?a1)"
      using new_collection_ex
              [of "filter (\<lambda>c. c \<notin> set (contents ?H5 ?a3)) (contents ?H5 ?a1)" ?H5]
      by blast
    from None p f n1 n2 n3 c1 c3' o5 c5 n6 c6 show ?thesis
      by (simp add: reduce_columns_heap_def reduce_columns_def Let_def)
  qed
qed

lemma reduce_columns_heap_frame:
  assumes "a < allocated H"
  shows "contents (snd (reduce_columns_heap S ign syn columns clauses H)) a = contents H a"
proof -
  let ?cs = "keep_first {} (contents H columns)"
  let ?a1 = "allocated H"
  let ?a2 = "Suc (allocated H)"
  let ?a3 = "Suc (Suc (allocated H))"
  obtain H1 where n1: "new_collection ?cs H = (?a1, H1)"
    and a1: "allocated H1 = ?a2"
    and f1: "\<forall>a. a \<noteq> ?a1 \<longrightarrow> contents H1 a = contents H a"
    using new_collection_ex [of ?cs H] by blast
  let ?nt = "filter (\<lambda>c. \<not> is_text_clause c) (contents H1 ?a1)"
  obtain H2 where n2: "new_collection ?nt H1 = (?a2, H2)"
    and a2: "allocated H2 = ?a3"
    and f2: "\<forall>a. a \<noteq> ?a2 \<longrightarrow> contents H2 a = contents H1 a"
    using new_collection_ex [of ?nt H1] a1 by auto
  obtain H3 where n3: "new_collection [] H2 = (?a3, H3)"
    and a3: "allocated H3 = Suc ?a3"
    and f3: "\<forall>a. a \<noteq> ?a3 \<longrightarrow> contents H3 a = contents H2 a"
    using new_collection_ex [of "[]" H2] a2 by auto
  have h3: "contents H3 a = contents H a"
    using assms f1 f2 f3 by simp
  obtain r H4 where f: "fk_scan_heap S ign syn ?a2 ?a3 (contents H3 ?a2) H3 = (r, H4)"
    by (cases "fk_scan_heap S ign syn ?a2 ?a3 (contents H3 ?a2) H3")
  from fk_scan_heap_frame [of S ign syn ?a2 ?a3 "contents H3 ?a2" H3] f h3 a3 assms
  have h4: "contents H4 a = contents H a" "allocated H4 = Suc ?a3" by simp_all
  show ?thesis
  proof (cases r)
    case (Some e)
    with f n1 n2 n3 h4 show ?thesis by (simp add: reduce_columns_heap_def)
  next
    case None
    let ?H5 = "fold (visit_binary_heap S syn ?a2 ?a3) (clause_nodes clauses) H4"
    from fold_visit_binary_heap_frame [of S syn ?a2 ?a3 "clause_nodes clauses" H4] h4 assms
    have h5: "contents ?H5 a = contents H a" "allocated ?H5 = Suc ?a3" by simp_all
    obtain H6 where n6: "new_collection
          (filter (\<lambda>c. c \<notin> set (contents ?H5 ?a3)) (contents ?H5 ?a1)) ?H5
        = (allocated ?H5, H6)"
      and f6: "\<forall>a. a \<noteq> allocated ?H5 \<longrightarrow> contents H6 a = contents ?H5 a"
      using new_collection_ex
              [of "filter (\<lambda>c. c \<notin> set (contents ?H5 ?a3)) (contents ?H5 ?a1)" ?H5]
      by blast
    from None f n1 n2 n3 h5 n6 f6 assms show ?thesis
      by (simp add: reduce_columns_heap_def Let_def)
  qed
qed

lemma fk_scan_columns_raises_error:
  "\<not> fk_resolves fk \<Longrightarrow> list_ex (\<lambda>c. c \<noteq> col) cs
     \<Longrightarrow> fk_scan_columns S False syn col fk cs = Inl (the (fk_error fk))"
  by (induction cs) (auto split: fk_column.splits)

lemma fk_scan_keys_raises_error:
  assumes "list_ex (\<lambda>c. c \<noteq> col) cset"
  shows "find (\<lambda>fk. \<not> fk_resolves fk) fks = Some fk
     \<Longrightarrow> fk_scan_keys S False syn cset col fks omit = Inl (the (fk_error fk))"
proof (induction fks arbitrary: omit)
  case Nil
  then show ?case by simp
next
  case (Cons k ks)
  show ?case
  proof (cases "fk_resolves k")
    case True
    with Cons.prems have "find (\<lambda>fk. \<not> fk_resolves fk) ks = Some fk" by simp
    from Cons.IH [OF this] True show ?thesis by (simp add: fk_scan_columns_match)
  next
    case False
    with Cons.prems have "k = fk" by simp
    with False fk_scan_columns_raises_error [OF False assms, of S syn] show ?thesis by simp
  qed
qed

lemma fk_scan_raises_error:
  "find (fk_unresolved S cset) cols = Some col
     \<Longrightarrow> find (\<lambda>fk. \<not> fk_resolves fk) (foreign_keys_of S col) = Some fk
     \<Longrightarrow> fk_scan S False syn cset cols omit = Inl (the (fk_error fk))"
proof (induction cols arbitrary: omit)
  case Nil
  then show ?case by simp
next
  case (Cons c cs)
  show ?case
  proof (cases "fk_unresolved S cset c")
    case True
    with Cons.prems have eq: "c = col" by simp
    with True have "list_ex (\<lambda>x. x \<noteq> col) cset" by (simp add: fk_unresolved_def)
    from fk_scan_keys_raises_error [OF this Cons.prems(2), of S syn omit] eq
    show ?thesis by simp
  next
    case False
    then have "\<not> (list_ex (\<lambda>fk. \<not> fk_resolves fk) (foreign_keys_of S c)
                      \<and> list_ex (\<lambda>x. x \<noteq> c) cset)"
      by (simp add: fk_unresolved_def)
    then have "fk_scan_keys S False syn cset c (foreign_keys_of S c) omit =
         Inr (if list_ex (fk_match S syn cset c) (foreign_keys_of S c)
              then insert c omit else omit)"
      by (intro fk_scan_keys_returns) simp
    moreover from False Cons.prems have "find (fk_unresolved S cset) cs = Some col" by simp
    ultimately show ?thesis using Cons.IH Cons.prems(2) by simp
  qed
qed

lemma first_unresolved_iff:
  "(first_unresolved S cset \<noteq> None) = list_ex (fk_unresolved S cset) cset"
proof (cases "find (fk_unresolved S cset) cset")
  case None
  then have "first_unresolved S cset = None" by (simp add: first_unresolved_def)
  moreover from None have "\<not> list_ex (fk_unresolved S cset) cset"
    by (simp add: find_None_iff list_ex_iff)
  ultimately show ?thesis by simp
next
  case (Some col)
  then have u: "fk_unresolved S cset col" and m: "col \<in> set cset"
    by (auto simp: find_Some_iff)
  then obtain fk where f: "find (\<lambda>fk. \<not> fk_resolves fk) (foreign_keys_of S col) = Some fk"
    by (cases "find (\<lambda>fk. \<not> fk_resolves fk) (foreign_keys_of S col)")
       (auto simp: fk_unresolved_def find_None_iff list_ex_iff)
  then have "\<not> fk_resolves fk" by (auto simp: find_Some_iff)
  then have "fk_error fk \<noteq> None" by (cases fk) simp_all
  with Some f u m show ?thesis by (auto simp: first_unresolved_def list_ex_iff)
qed

lemma first_unresolved_error:
  "first_unresolved S cset = Some e
     \<Longrightarrow> e = NoReferencedColumnError \<or> e = NoReferencedTableError"
  by (auto simp: first_unresolved_def split: option.splits elim: fk_error.elims)

lemma reduce_columns_raises_error:
  assumes "first_unresolved S (columns_no_text columns) = Some e"
  shows "reduce_columns S False syn columns clauses = Inl e"
proof -
  from assms obtain col fk
    where "find (fk_unresolved S (columns_no_text columns)) (columns_no_text columns) = Some col"
      and "find (\<lambda>fk. \<not> fk_resolves fk) (foreign_keys_of S col) = Some fk"
      and "fk_error fk = Some e"
    by (auto simp: first_unresolved_def split: option.splits)
  with fk_scan_raises_error
         [of S "columns_no_text columns" "columns_no_text columns" col fk syn "{}"]
  show ?thesis
    by (simp add: reduce_columns_def Let_def columns_no_text_def [symmetric])
qed

lemma reduce_columns_error_iff:
  "(reduce_columns S ign syn columns clauses = Inl e)
     = (\<not> ign \<and> first_unresolved S (columns_no_text columns) = Some e)"
proof (cases "\<not> ign \<and> first_unresolved S (columns_no_text columns) \<noteq> None")
  case True
  then obtain e' where "first_unresolved S (columns_no_text columns) = Some e'" by auto
  with True reduce_columns_raises_error [of S columns e' syn clauses] show ?thesis by auto
next
  case False
  then have "ign \<or> \<not> list_ex (fk_unresolved S (columns_no_text columns))
                          (columns_no_text columns)"
    using first_unresolved_iff [of S "columns_no_text columns"] by auto
  from reduce_columns_returns [OF this, of syn clauses] False show ?thesis by auto
qed

lemma redundant_columns_no_clauses:
  "redundant_columns S syn columns [] = fk_omitted S syn columns"
  by (simp add: redundant_columns_def clause_equalities_def)

lemma reduce_columns_nested:
  "reduce_columns example_store False False [Column 4, Column 5, Column 6]
      [Some (BinaryExpression 7 operators_and
               (BinaryExpression 8 operators_eq (Column 4) (Column 5))
               (BinaryExpression 9 operators_eq (Column 5) (Column 6)))]
     = Inr [Column 4, Column 6]"
  by (simp add: reduce_columns_def example_store_def traverse_clauses_def clause_nodes_def
        foreign_keys_of_def shares_lineage_def kept_proxies_def binary_match_def)

text \<open>
  Claim C8, as stated, fails: the only column of the set has a foreign key to a table
  that does not exist, the ignore flag is not set, and the call returns the column
  instead of raising, because the key is dereferenced only inside the loop over the
  other columns.
\<close>

theorem reduce_columns_single_column_counterexample:
  "foreign_keys_of unresolved_store (Column 1) = [NoReferencedTable]
   \<and> reduce_columns unresolved_store False False [Column 1] [] = Inr [Column 1]"
  by (simp add: reduce_columns_def unresolved_store_def foreign_keys_of_def
        traverse_clauses_def clause_nodes_def)

text \<open>
  Claim C8, amended. \<open>reduce_columns\<close> raises exactly when the ignore flag is not set
  and some non-text column of the set has, through its proxy set, a foreign key whose
  column or table cannot be resolved while the set holds another non-text column; the
  exception is the unresolved-reference error (no referenced column, or no referenced
  table) of the first such foreign key of the first such column. With the ignore flag
  set no call raises, and the result is the one the call gives when the unresolvable
  foreign keys are not there at all. In the store of collections the call gives the
  same outcome and leaves every collection that existed before it, the one passed in
  among them, as it was, whether it raises or returns.
\<close>

theorem reduce_columns_unresolved:
  "(reduce_columns S ign syn columns clauses = Inl e)
     = (\<not> ign \<and> first_unresolved S (columns_no_text columns) = Some e)
   \<and> (first_unresolved S (columns_no_text columns) = Some e
      \<longrightarrow> e = NoReferencedColumnError \<or> e = NoReferencedTableError)
   \<and> (first_unresolved S (columns_no_text columns) \<noteq> None)
       = list_ex (fk_unresolved S (columns_no_text columns)) (columns_no_text columns)
   \<and> reduce_columns S True syn columns clauses
       = reduce_columns (resolved_only S) ign syn columns clauses
   \<and> fst (reduce_columns_heap S ign syn a clauses H)
       = reduce_columns S ign syn (contents H a) clauses
   \<and> (a' < allocated H
      \<longrightarrow> contents (snd (reduce_columns_heap S ign syn a clauses H)) a' = contents H a')"
  using reduce_columns_error_iff [of S ign syn columns clauses e]
    first_unresolved_error [of S "columns_no_text columns" e]
    first_unresolved_iff [of S "columns_no_text columns"]
    reduce_columns_ignore [of S syn columns clauses ign]
    reduce_columns_heap_pure [of S ign syn a clauses H]
    reduce_columns_heap_frame [of a' H S ign syn a clauses]
  by blast

theorem reduce_columns_unresolved_witness:
  "reduce_columns unresolved_store False False [Column 1, Column 2] []
     = Inl NoReferencedTableError
   \<and> fst (reduce_columns_heap unresolved_store False False 0 [] two_columns)
     = Inl NoReferencedTableError
   \<and> contents (snd (reduce_columns_heap unresolved_store False False 0 [] two_columns)) 0
     = [Column 1, Column 2]
   \<and> reduce_columns unresolved_store True False [Column 1, Column 2] []
     = Inr [Column 1, Column 2]"
proof -
  have h1: "first_unresolved unresolved_store (columns_no_text [Column 1, Column 2])
              = Some NoReferencedTableError"
    by (simp add: first_unresolved_def fk_unresolved_def columns_no_text_def
          unresolved_store_def foreign_keys_of_def)
  have h2: "contents two_columns 0 = [Column 1, Column 2] \<and> 0 < allocated two_columns"
    by (simp add: two_columns_def)
  have h3: "reduce_columns (resolved_only unresolved_store) False False [Column 1, Column 2] []
             = Inr [Column 1, Column 2]"
    by (simp add: reduce_columns_def unresolved_store_def resolved_only_def
          foreign_keys_of_def traverse_clauses_def clause_nodes_def)
  from reduce_columns_unresolved
         [where S = unresolved_store and ign = False and syn = False
            and columns = "[Column 1, Column 2]" and clauses = "[]"
            and e = NoReferencedTableError and a = 0 and a' = 0 and H = two_columns]
       h1 h2 h3
  show ?thesis by simp
qed

text \<open>
  Claim C2, as stated, fails. The subquery column 5 is equated with the table column 1
  that it stands for; column 1 is not in the set, so no other still-kept column is
  equated with column 5, and yet it is dropped: the two sides of an equality are
  looked up in the proxy sets of the kept columns, and the column dropped is found by
  its lineage with the right-hand side alone. In the same way a column equated with
  itself is dropped.
\<close>

theorem reduce_columns_same_lineage_counterexample:
  "reduce_columns proxy_store False False [Column 5, Column 2]
      [Some (BinaryExpression 9 operators_eq (Column 5) (Column 1))]
     = Inr [Column 2]
   \<and> reduce_columns example_store False False [Column 1, Column 2]
      [Some (BinaryExpression 4 operators_eq (Column 1) (Column 1))]
     = Inr [Column 2]"
  by (simp add: reduce_columns_def proxy_store_def example_store_def traverse_clauses_def
        clause_nodes_def foreign_keys_of_def shares_lineage_def kept_proxies_def
        binary_match_def)

text \<open>
  Claim C2, amended. A call of \<open>reduce_columns\<close> returns when no foreign key has to be
  resolved and cannot be, and a call that returns gives the columns in insertion order,
  first occurrences only, with the redundant columns removed. A column is redundant if
  it is a non-text column of the set and one of the foreign keys of its proxy set
  resolves to a column that shares lineage with some other non-text column of the set
  (of the same name, under \<open>only_synonyms\<close>); or, when join clauses are given, if it
  is the first match, in reverse insertion order, for an equality predicate anywhere
  inside those clauses whose two sides are both in the proxy sets of columns still
  kept when the predicate is reached: the match is a non-text column that shares
  lineage with the right-hand side (and has the name of the left-hand side, under
  \<open>only_synonyms\<close>); whether the left-hand side belongs to another column is not
  tested. With no join clause only the foreign keys make a column redundant.
  \<open>reduce_columns([t1.id, t2.id, t2.t1_id], t1.id==t2.t1_id)\<close> gives \<open>t1.id\<close> and
  \<open>t2.id\<close>, and of two equalities under a conjunction the second no longer applies
  once the first has removed one of its sides.
\<close>

theorem reduce_columns_redundant:
  "(reduce_columns S ign syn columns clauses = Inr r
      \<longrightarrow> r = filter (\<lambda>c. c \<notin> redundant_columns S syn columns clauses)
                      (keep_first {} columns))
   \<and> (ign \<or> \<not> list_ex (fk_unresolved S (columns_no_text columns)) (columns_no_text columns)
      \<longrightarrow> reduce_columns S ign syn columns clauses
            = Inr (filter (\<lambda>c. c \<notin> redundant_columns S syn columns clauses)
                          (keep_first {} columns)))
   \<and> (c \<in> fk_omitted S syn columns)
       = (c \<in> set (columns_no_text columns) \<and> fk_redundant S syn (columns_no_text columns) c)
   \<and> redundant_columns S syn columns [] = fk_omitted S syn columns
   \<and> reduce_columns example_store False False [Column 1, Column 2, Column 3]
        [Some (BinaryExpression 4 operators_eq (Column 1) (Column 3))]
       = Inr [Column 1, Column 2]
   \<and> reduce_columns example_store False False [Column 4, Column 5, Column 6]
        [Some (BinaryExpression 7 operators_and
                 (BinaryExpression 8 operators_eq (Column 4) (Column 5))
                 (BinaryExpression 9 operators_eq (Column 5) (Column 6)))]
       = Inr [Column 4, Column 6]"
proof -
  have a: "r = filter (\<lambda>c. c \<notin> redundant_columns S syn columns clauses)
                     (keep_first {} columns)"
    if "reduce_columns S ign syn columns clauses = Inr r"
    using reduce_columns_result [OF that] by (simp add: omitted_columns_redundant)
  have b: "reduce_columns S ign syn columns clauses
            = Inr (filter (\<lambda>c. c \<notin> redundant_columns S syn columns clauses)
                          (keep_first {} columns))"
    if "ign \<or> \<not> list_ex (fk_unresolved S (columns_no_text columns))
                     (columns_no_text columns)"
    using reduce_columns_returns [OF that, of syn clauses]
    by (simp add: omitted_columns_redundant)
  from a b fk_omitted_iff [of c S syn columns] redundant_columns_no_clauses [of S syn columns]
    reduce_columns_example reduce_columns_nested
  show ?thesis by blast
qed

theorem reduce_columns_redundant_witness:
  "[Column 1, Column 2]
     = filter (\<lambda>c. c \<notin> redundant_columns example_store False [Column 1, Column 2, Column 3]
                         [Some (BinaryExpression 4 operators_eq (Column 1) (Column 3))])
              (keep_first {} [Column 1, Column 2, Column 3])
   \<and> Column 3 \<in> fk_omitted example_store False [Column 1, Column 2, Column 3]
   \<and> reduce_columns example_store True False [Column 1, Column 2, Column 3]
        [Some (BinaryExpression 4 operators_eq (Column 1) (Column 3))]
       = Inr [Column 1, Column 2]"
proof -
  let ?cols = "[Column 1, Column 2, Column 3]"
  let ?clauses = "[Some (BinaryExpression 4 operators_eq (Column 1) (Column 3))]"
  have h1: "reduce_columns example_store False False ?cols ?clauses = Inr [Column 1, Column 2]"
    by (rule reduce_columns_example)
  have h2: "Column 3 \<in> set (columns_no_text ?cols)
              \<and> fk_redundant example_store False (columns_no_text ?cols) (Column 3)"
    by (simp add: columns_no_text_def fk_redundant_def fk_match_def example_store_def
          foreign_keys_of_def shares_lineage_def)
  from reduce_columns_redundant
         [where S = example_store and ign = False and syn = False and columns = ?cols
            and clauses = ?clauses and r = "[Column 1, Column 2]" and c = "Column 3"] h1 h2
  have r: "[Column 1, Column 2]
             = filter (\<lambda>c. c \<notin> redundant_columns example_store False ?cols ?clauses)
                      (keep_first {} ?cols)"
    and f: "Column 3 \<in> fk_omitted example_store False ?cols"
    by blast+
  from reduce_columns_redundant
         [where S = example_store and ign = True and syn = False and columns = ?cols
            and clauses = ?clauses and r = "[Column 1, Column 2]" and c = "Column 3"] r
  have "reduce_columns example_store True False ?cols ?clauses = Inr [Column 1, Column 2]"
    by simp
  with r f show ?thesis by blast
qed

section \<open>Theorems about \<open>ClauseAdapter\<close> and \<open>ColumnAdapter\<close>\<close>

lemma replace_singleton_constant:
  "is_singleton_constant col \<Longrightarrow> replace S A col False = None"
  by (cases col) (simp_all add: replace_def)

lemma locate_col_steps:
  "locate_col trav S A col wd =
     (case own_step trav S A col wd of
        (c, wd1) \<Rightarrow>
          (case wrap_field A of
             None \<Rightarrow> last_step A col c wd1
           | Some wrapped \<Rightarrow>
               (case locate_col trav S wrapped c wd1 of
                  (Some c2, wd') \<Rightarrow> last_step A col c2 wd'
                | (None, wd') \<Rightarrow> last_step A col c wd')))"
  by (cases A)
     (simp add: own_step_def last_step_def Let_def split: prod.splits option.splits)





lemma last_step_fst:
  "fst (last_step A col c wd) = (if adapt_required A \<and> c = col then None else Some c)"
  by (simp add: last_step_def)









lemma columns_getitem_again:
  "columns_getitem trav S A key wd = (r, A', wd')
     \<Longrightarrow> columns_getitem trav S A' key wd' = (r, A', wd')"
proof (induction A arbitrary: r A' wd wd')
  case (ColumnAdapter b required label_resolve w n d m)
  let ?filt = "m \<and> ((include_fn b \<noteq> None \<and> \<not> the (include_fn b) key)
             \<or> (exclude_fn b \<noteq> None \<and> the (exclude_fn b) key))"
  show ?case
  proof (cases ?filt)
    case filt: True
    show ?thesis
    proof (cases w)
      case None
      with filt ColumnAdapter.prems show ?thesis by auto
    next
      case (Some wrapped)
      obtain val wrapped' wd1 where g: "columns_getitem trav S wrapped key wd = (val, wrapped', wd1)"
        by (cases "columns_getitem trav S wrapped key wd")
      have "wrapped \<in> set_option w" using Some by simp
      from ColumnAdapter.IH(1) [OF this g]
      have again: "columns_getitem trav S wrapped' key wd1 = (val, wrapped', wd1)" .
      from filt Some g ColumnAdapter.prems
      have "r = val" "A' = ColumnAdapter b required label_resolve (Some wrapped') n d m"
        "wd' = wd1"
        by auto
      with filt again show ?thesis by auto
    qed
  next
    case nofilt: False
    show ?thesis
    proof (cases "d key")
      case (Some val)
      with nofilt ColumnAdapter.prems show ?thesis by (auto simp del: locate_col.simps)
    next
      case None
      obtain val wd1
        where l: "locate_col trav S (ColumnAdapter b required label_resolve w n d m) key wd
                    = (val, wd1)"
        by (cases "locate_col trav S (ColumnAdapter b required label_resolve w n d m) key wd")
      from nofilt None l ColumnAdapter.prems
      have "r = val" "A' = ColumnAdapter b required label_resolve w n (d(key \<mapsto> val)) m"
        "wd' = wd1"
        by (auto simp del: locate_col.simps)
      with nofilt show ?thesis by (auto simp del: locate_col.simps)
    qed
  qed
qed

lemma corresponding_column_rec_keeps:
  assumes "target_keeps S c vis"
  shows "corresponding_column_rec S vis c True seen = None
     \<or> corresponding_column_rec S vis c True seen = Some c"
  using assms by (auto simp: target_keeps_def)

lemma replace_keeps:
  assumes "is_immutable c" "isinstance_ColumnElement c" "target_keeps S c vis"
  shows "replace S vis c True = None \<or> replace S vis c True = Some c"
proof -
  from assms(3) have a: "annotations_adapt_column S (oid_of c) = None"
    by (simp add: target_keeps_def)
  from assms(1,2) have f: "\<not> isinstance_FromClause c" by (cases c) simp_all
  from corresponding_column_rec_keeps [OF assms(3), of "{}"] a f assms(2)
  show ?thesis
    by (auto simp: replace_def Let_def simp del: corresponding_column_rec.simps)
qed

lemma first_replace_keeps:
  assumes "is_immutable c" "isinstance_ColumnElement c"
  shows "list_all (target_keeps S c) vs
     \<Longrightarrow> first_replace S vs c = None \<or> first_replace S vs c = Some c"
proof (induction vs)
  case Nil
  then show ?case by simp
next
  case (Cons vis vs)
  from Cons.prems have "target_keeps S c vis" by simp
  from replace_keeps [OF assms this] Cons show ?case by auto
qed

lemma own_step_keeps:
  assumes "is_immutable c" "isinstance_ColumnElement c"
    "list_all (target_keeps S c) (visitor_iterator A)"
  shows "own_step trav S A c wd = (c, wd)"
  using first_replace_keeps [OF assms(1,2) assms(3)] assms(1)
  by (auto simp: own_step_def)

lemma adapter_keeps_fields:
  "adapter_keeps S A c \<Longrightarrow>
     \<not> adapt_required A \<and> list_all (target_keeps S c) (visitor_iterator A)
     \<and> (columns_dict A c = None \<or> columns_dict A c = Some (Some c))
     \<and> (\<forall>wrapped. wrap_field A = Some wrapped \<longrightarrow> adapter_keeps S wrapped c)"
  by (cases A) (auto simp del: visitor_iterator.simps)

lemma locate_col_keeps:
  assumes "is_immutable c" "isinstance_ColumnElement c"
  shows "adapter_keeps S A c \<Longrightarrow> locate_col trav S A c wd = (Some c, wd)"
proof (induction A arbitrary: wd)
  case (ColumnAdapter b required label_resolve w n d m)
  let ?A = "ColumnAdapter b required label_resolve w n d m"
  from adapter_keeps_fields [OF ColumnAdapter.prems]
  have rq: "\<not> adapt_required ?A"
    and vs: "list_all (target_keeps S c) (visitor_iterator ?A)"
    and wr: "\<forall>wrapped. wrap_field ?A = Some wrapped \<longrightarrow> adapter_keeps S wrapped c"
    by blast+
  have own: "own_step trav S ?A c wd = (c, wd)"
    using own_step_keeps [OF assms vs] .
  have ls: "last_step ?A c c wd = (Some c, wd)"
    using rq by (simp add: last_step_def)
  show ?case
  proof (cases w)
    case None
    show ?thesis
      unfolding locate_col_steps [of trav S ?A c]
      using None own ls by (simp del: locate_col.simps)
  next
    case (Some wrapped)
    with wr have "adapter_keeps S wrapped c" by simp
    with ColumnAdapter.IH(1) [of wrapped wd] Some
    have "locate_col trav S wrapped c wd = (Some c, wd)" by simp
    then show ?thesis
      unfolding locate_col_steps [of trav S ?A c]
      using Some own ls by (simp del: locate_col.simps)
  qed
qed

lemma columns_getitem_keeps:
  assumes "is_immutable c" "isinstance_ColumnElement c"
  shows "adapter_keeps S A c \<Longrightarrow> fst (columns_getitem trav S A c wd) = Some c"
proof (induction A arbitrary: wd)
  case (ColumnAdapter b required label_resolve w n d m)
  let ?A = "ColumnAdapter b required label_resolve w n d m"
  from adapter_keeps_fields [OF ColumnAdapter.prems]
  have dc: "d c = None \<or> d c = Some (Some c)"
    and wr: "\<forall>wrapped. w = Some wrapped \<longrightarrow> adapter_keeps S wrapped c"
    by auto
  have lc: "locate_col trav S ?A c wd = (Some c, wd)"
    using locate_col_keeps [OF assms ColumnAdapter.prems] .
  let ?filt = "m \<and> ((include_fn b \<noteq> None \<and> \<not> the (include_fn b) c)
             \<or> (exclude_fn b \<noteq> None \<and> the (exclude_fn b) c))"
  show ?case
  proof (cases ?filt)
    case filt: True
    show ?thesis
    proof (cases w)
      case None
      with filt show ?thesis by auto
    next
      case (Some wrapped)
      with wr have "adapter_keeps S wrapped c" by simp
      with ColumnAdapter.IH(1) [of wrapped wd] Some
      have "fst (columns_getitem trav S wrapped c wd) = Some c" by simp
      with filt Some show ?thesis by (auto split: prod.splits)
    qed
  next
    case False
    with dc lc show ?thesis by (auto simp del: locate_col.simps)
  qed
qed

lemma columns_getitem_preserves_keeps:
  "columns_getitem trav S A key wd = (r, A', wd') \<Longrightarrow> key \<noteq> c
     \<Longrightarrow> adapter_keeps S A c \<Longrightarrow> adapter_keeps S A' c"
proof (induction A arbitrary: r A' wd wd')
  case (ColumnAdapter b required label_resolve w n d m)
  let ?filt = "m \<and> ((include_fn b \<noteq> None \<and> \<not> the (include_fn b) key)
             \<or> (exclude_fn b \<noteq> None \<and> the (exclude_fn b) key))"
  show ?case
  proof (cases ?filt)
    case filt: True
    show ?thesis
    proof (cases w)
      case None
      with filt ColumnAdapter.prems show ?thesis by auto
    next
      case (Some wrapped)
      obtain val wrapped' wd1
        where g: "columns_getitem trav S wrapped key wd = (val, wrapped', wd1)"
        by (cases "columns_getitem trav S wrapped key wd")
      have "wrapped \<in> set_option w" using Some by simp
      moreover from ColumnAdapter.prems(3) Some have "adapter_keeps S wrapped c" by simp
      ultimately have "adapter_keeps S wrapped' c"
        using ColumnAdapter.IH(1) [OF _ g ColumnAdapter.prems(2)] by simp
      moreover from filt Some g ColumnAdapter.prems(1)
      have "A' = ColumnAdapter b required label_resolve (Some wrapped') n d m" by auto
      ultimately show ?thesis using ColumnAdapter.prems(3) by simp
    qed
  next
    case nofilt: False
    show ?thesis
    proof (cases "d key")
      case (Some val)
      with nofilt ColumnAdapter.prems show ?thesis by (auto simp del: locate_col.simps)
    next
      case None
      obtain val wd1
        where l: "locate_col trav S (ColumnAdapter b required label_resolve w n d m) key wd
                    = (val, wd1)"
        by (cases "locate_col trav S (ColumnAdapter b required label_resolve w n d m) key wd")
      from nofilt None l ColumnAdapter.prems(1)
      have "A' = ColumnAdapter b required label_resolve w n (d(key \<mapsto> val)) m"
        by (auto simp del: locate_col.simps)
      with ColumnAdapter.prems(2,3) show ?thesis by simp
    qed
  qed
qed

lemma traverse_adapted_again:
  assumes "traverse trav S A c wd = (Some c', A', wd')"
    "c' = c \<or> (is_immutable c' \<and> isinstance_ColumnElement c' \<and> adapter_keeps S A c')"
  shows "fst (traverse trav S A' c' wd') = Some c'"
proof (cases "c' = c")
  case True
  with assms(1) columns_getitem_again [of trav S A c wd "Some c'" A' wd'] show ?thesis
    by (simp add: traverse_def)
next
  case False
  with assms(2) have i: "is_immutable c'" "isinstance_ColumnElement c'"
    and k: "adapter_keeps S A c'" by simp_all
  from assms(1) False k have "adapter_keeps S A' c'"
    using columns_getitem_preserves_keeps [of trav S A c wd "Some c'" A' wd' c']
    by (simp add: traverse_def)
  from columns_getitem_keeps [OF i this] show ?thesis by (simp add: traverse_def)
qed

text \<open>
  Claim C4, as stated, fails for a column adapter: its target has a column for \<open>NULL\<close>,
  and adapting \<open>NULL\<close> gives that column, because \<open>_locate_col\<close> calls \<open>replace\<close> with
  \<open>_include_singleton_constants=True\<close>.
\<close>

theorem column_adapter_null_counterexample:
  "fst (traverse no_clause_traverse example_store null_adapter (Null 0) empty_world)
     = Some (Column 5)"
  by (simp add: traverse_def null_adapter_def ColumnAdapter_init_def ClauseAdapter_init_def
        replace_def target_def example_store_def adapt_from_def empty_world_def)

text \<open>
  Claim C4, amended. The replacement step of a clause adapter, called without
  \<open>_include_singleton_constants\<close> as the replacing traversal calls it, returns no
  substitution for \<open>NULL\<close>, \<open>TRUE\<close> or \<open>FALSE\<close>. Called with the flag, as the column
  lookup of a column adapter calls it, it treats a singleton constant as any column:
  with no annotation, include or exclude function or adapt-from set in the way, it
  returns the target's corresponding column; and a column adapter (unwrapped, without
  \<open>adapt_required\<close>) then returns that column for the constant.
\<close>

theorem replace_singleton_constants:
  "(is_singleton_constant col \<longrightarrow> replace S A col False = None)
   \<and> (is_singleton_constant col \<and> annotations_adapt_column S (oid_of col) = None
        \<and> adapt_from A = [] \<and> include_fn A = None \<and> exclude_fn A = None
        \<and> corresponding_column (selectable A) col True = Some x
      \<longrightarrow> replace S A col True = Some x)
   \<and> (is_singleton_constant col \<and> wrap_field CA = None \<and> \<not> adapt_required CA
        \<and> replace S (base CA) col True = Some x
      \<longrightarrow> fst (locate_col trav S CA col wd) = Some x)"
proof -
  have a: "replace S A col False = None" if "is_singleton_constant col"
    using that by (rule replace_singleton_constant)
  have b: "replace S A col True = Some x"
    if "is_singleton_constant col" "annotations_adapt_column S (oid_of col) = None"
      "adapt_from A = []" "include_fn A = None" "exclude_fn A = None"
      "corresponding_column (selectable A) col True = Some x"
    using that by (cases col) (simp_all add: replace_def)
  have c: "fst (locate_col trav S CA col wd) = Some x"
    if "is_singleton_constant col" "wrap_field CA = None" "\<not> adapt_required CA"
      "replace S (base CA) col True = Some x"
  proof -
    from that(1) have "is_immutable col" by (cases col) simp_all
    with that(4) have "own_step trav S CA col wd = (x, wd)"
      by (cases CA) (simp add: own_step_def)
    with that(2,3) show ?thesis
      unfolding locate_col_steps [of trav S CA col]
      by (simp add: last_step_fst del: locate_col.simps)
  qed
  from a b c show ?thesis by blast
qed

theorem replace_singleton_constants_witness:
  "replace example_store (base null_adapter) (Null 0) False = None
   \<and> replace example_store (base null_adapter) (Null 0) True = Some (Column 5)
   \<and> fst (locate_col no_clause_traverse example_store null_adapter (Null 0) empty_world)
       = Some (Column 5)"
proof -
  have h1: "is_singleton_constant (Null 0)" by simp
  have h2: "annotations_adapt_column example_store (oid_of (Null 0)) = None
        \<and> adapt_from (base null_adapter) = [] \<and> include_fn (base null_adapter) = None
        \<and> exclude_fn (base null_adapter) = None
        \<and> corresponding_column (selectable (base null_adapter)) (Null 0) True
            = Some (Column 5)"
    by (simp add: null_adapter_def ColumnAdapter_init_def ClauseAdapter_init_def target_def
          example_store_def adapt_from_def)
  have h3: "wrap_field null_adapter = None \<and> \<not> adapt_required null_adapter"
    by (simp add: null_adapter_def ColumnAdapter_init_def)
  from replace_singleton_constants
         [where col = "Null 0" and S = example_store and A = "base null_adapter"
            and x = "Column 5" and CA = null_adapter and trav = no_clause_traverse
            and wd = empty_world] h1 h2 h3
  show ?thesis by blast
qed




text \<open>
  Claim C1, as stated, fails: with \<open>adapt_required\<close>, column 1 is adapted to column 2
  of the target, and adapting column 2 again gives \<open>None\<close>, since a column that comes
  back unchanged counts as not adapted.
\<close>

theorem column_adapter_required_counterexample:
  "traverse no_clause_traverse example_store required_adapter (Column 1) empty_world
     = (Some (Column 2),
        ColumnAdapter (base required_adapter) True True None None
          ((\<lambda>key. None)(Column 1 \<mapsto> Some (Column 2))) False,
        empty_world\<lparr>allow_label_resolve_attr := (\<lambda>i. None)(2 \<mapsto> True)\<rparr>)
   \<and> fst (traverse no_clause_traverse example_store
           (ColumnAdapter (base required_adapter) True True None None
              ((\<lambda>key. None)(Column 1 \<mapsto> Some (Column 2))) False)
           (Column 2)
           (empty_world\<lparr>allow_label_resolve_attr := (\<lambda>i. None)(2 \<mapsto> True)\<rparr>))
     = None"
  by (simp add: traverse_def required_adapter_def ColumnAdapter_init_def
        ClauseAdapter_init_def replace_def target_def example_store_def adapt_from_def
        empty_world_def)

text \<open>
  Claim C1, amended. Adapting the same column again through the same adapter returns
  the identical object and changes nothing: the second \<open>A.traverse(c)\<close> is answered from
  the dictionary that the first one filled. \<open>A.traverse(A.traverse(c))\<close> is
  \<open>A.traverse(c)\<close> whenever the adapted column is \<open>c\<close> itself, and whenever it is an
  immutable column that the adapter keeps: neither the adapter nor one it wraps has
  \<open>adapt_required\<close>, the target selectable of each of their visitors maps the adapted
  column to itself or to nothing, the column carries no \<open>adapt_column\<close> annotation, and
  no dictionary holds an entry for it other than the column itself. The adapter may
  have been used before, may wrap another and may have chained visitors and include or
  exclude functions.
\<close>

theorem traverse_memoized:
  "(traverse trav S A c wd = (r, A', wd') \<longrightarrow> traverse trav S A' c wd' = (r, A', wd'))
   \<and> (traverse trav S A c wd = (Some c', A', wd')
        \<and> (c' = c
           \<or> (is_immutable c' \<and> isinstance_ColumnElement c' \<and> adapter_keeps S A c'))
      \<longrightarrow> fst (traverse trav S A' c' wd') = Some c')"
  using columns_getitem_again [of trav S A c wd r A' wd']
    traverse_adapted_again [of trav S A c wd c' A' wd']
  unfolding traverse_def by blast

theorem traverse_memoized_witness:
  "traverse no_clause_traverse example_store
      (ColumnAdapter (base plain_adapter) False True None None
          ((\<lambda>key. None)(Column 1 \<mapsto> Some (Column 2))) False)
      (Column 1)
      (empty_world\<lparr>allow_label_resolve_attr := (\<lambda>i. None)(2 \<mapsto> True)\<rparr>)
     = (Some (Column 2),
        ColumnAdapter (base plain_adapter) False True None None
          ((\<lambda>key. None)(Column 1 \<mapsto> Some (Column 2))) False,
        empty_world\<lparr>allow_label_resolve_attr := (\<lambda>i. None)(2 \<mapsto> True)\<rparr>)
   \<and> fst (traverse no_clause_traverse example_store
           (ColumnAdapter (base plain_adapter) False True None None
              ((\<lambda>key. None)(Column 1 \<mapsto> Some (Column 2))) False)
           (Column 2)
           (empty_world\<lparr>allow_label_resolve_attr := (\<lambda>i. None)(2 \<mapsto> True)\<rparr>))
     = Some (Column 2)"
proof -
  let ?A' = "ColumnAdapter (base plain_adapter) False True None None
          ((\<lambda>key. None)(Column 1 \<mapsto> Some (Column 2))) False"
  let ?wd' = "empty_world\<lparr>allow_label_resolve_attr := (\<lambda>i. None)(2 \<mapsto> True)\<rparr>"
  have h1: "traverse no_clause_traverse example_store plain_adapter (Column 1) empty_world
              = (Some (Column 2), ?A', ?wd')"
    by (simp add: traverse_def plain_adapter_def ColumnAdapter_init_def
          ClauseAdapter_init_def replace_def target_def example_store_def adapt_from_def
          empty_world_def)
  have h2: "is_immutable (Column 2) \<and> isinstance_ColumnElement (Column 2)
              \<and> adapter_keeps example_store plain_adapter (Column 2)"
    by (simp add: plain_adapter_def ColumnAdapter_init_def ClauseAdapter_init_def
          target_keeps_def target_def example_store_def)
  from traverse_memoized
         [where trav = no_clause_traverse and S = example_store and A = plain_adapter
            and c = "Column 1" and wd = empty_world and r = "Some (Column 2)"
            and A' = ?A' and wd' = ?wd' and c' = "Column 2"] h1 h2
  show ?thesis by blast
qed

end
